theory Spec2Isabelle
  imports Main "HOL-Library.Char_ord" "HOL-Library.List_Lexorder"
begin

section \<open>Python values, types and exceptions\<close>

text \<open>
  The values that reach the argument parser: defaults, constants, choices, the raw
  values of a parsed namespace and what a getter returns. A float is kept opaque,
  named by its \<open>repr\<close>; nothing below computes with floats.
\<close>

datatype pyval =
    VNone
  | VBool bool
  | VInt int
  | VStr string
  | VFloat string
  | VList "pyval list"

text \<open>Truth value testing, as \<open>if const:\<close> and \<open>__kwds.get("const", False)\<close> use it.\<close>

fun truthy :: "pyval \<Rightarrow> bool" where
  "truthy VNone = False"
| "truthy (VBool b) = b"
| "truthy (VInt i) = (i \<noteq> 0)"
| "truthy (VStr s) = (s \<noteq> [])"
| "truthy (VFloat r) = (r \<noteq> ''0.0'' \<and> r \<noteq> ''-0.0'')"
| "truthy (VList xs) = (xs \<noteq> [])"

text \<open>
  The annotation of the \<open>value\<close> parameter, as \<open>get_type_hints\<close> returns it:
  a class, a parametrized list (\<open>List[...]\<close>, \<open>list[...]\<close>) with its tuple of
  type arguments, or a \<open>Union\<close> with its tuple of members (\<open>Optional[T]\<close> is
  \<open>Union[T, None]\<close>, members \<open>(T, NoneType)\<close>).
\<close>

datatype pytype =
    TInt
  | TFloat
  | TStr
  | TBool
  | TNoneType
  | TObject
  | TList "pytype list"
  | TUnion "pytype list"

datatype origin = OriginList | OriginUnion

text \<open>\<open>get_origin\<close> and \<open>get_args\<close> of \<open>typing\<close>; both accept \<open>None\<close>.\<close>

fun get_origin :: "pytype option \<Rightarrow> origin option" where
  "get_origin (Some (TList _)) = Some OriginList"
| "get_origin (Some (TUnion _)) = Some OriginUnion"
| "get_origin _ = None"

fun get_args :: "pytype option \<Rightarrow> pytype list" where
  "get_args (Some (TList ts)) = ts"
| "get_args (Some (TUnion ts)) = ts"
| "get_args _ = []"

datatype exn =
    ValueError string
  | TypeError string
  | KeyError string
  | IndexError
  | AttributeError string
  | ArgumentError string
  | NameError string
  | SystemExit int

text \<open>
  \<open>isinstance(None, t)\<close>: true for \<open>NoneType\<close> and for \<open>object\<close>, false for the
  other classes; a subscripted generic as second argument makes \<open>isinstance\<close> itself
  raise \<open>TypeError\<close>. (\<open>typing\<close> flattens unions, so a union is never a member of
  a union built from an annotation.)
\<close>

fun isinstance_None :: "pytype \<Rightarrow> exn + bool" where
  "isinstance_None TNoneType = Inr True"
| "isinstance_None TObject = Inr True"
| "isinstance_None (TList _) =
     Inl (TypeError ''Subscripted generics cannot be used with class and instance checks'')"
| "isinstance_None (TUnion _) =
     Inl (TypeError ''Subscripted generics cannot be used with class and instance checks'')"
| "isinstance_None _ = Inr False"

section \<open>Declarations: the \<open>argument\<close> decorator\<close>

text \<open>
  The keyword dictionary handed on to \<open>add_argument\<close>. Its keys are a fixed set, so
  the dictionary is a record of optional entries (\<open>None\<close>: key absent).
\<close>

datatype nargs = NInt int | NStar | NPlus

datatype action_name = store_const | store_true

record kwds =
  k_required :: "bool option"
  k_help :: "string option"
  k_action :: "action_name option"
  k_nargs :: "nargs option"
  k_const :: "pyval option"
  k_choices :: "pyval list option"
  k_metavar :: "string option"
  k_default :: "pyval option"
  k_type :: "pytype option"
  k_dest :: "string option"

definition empty_kwds :: kwds where
  "empty_kwds = \<lparr>k_required = None, k_help = None, k_action = None, k_nargs = None,
     k_const = None, k_choices = None, k_metavar = None, k_default = None,
     k_type = None, k_dest = None\<rparr>"

text \<open>
  A getter, as the decorator inspects it: \<open>__name__\<close>, \<open>__doc__\<close>, the type hint of
  its \<open>value\<close> parameter (\<open>get_type_hints(getter).get("value")\<close>), the entry of
  \<open>value\<close> in its signature (\<open>None\<close>: no such parameter) and its body. The body
  receives the namespace of \<open>self\<close>, the value argument (\<open>None\<close>: called as
  \<open>getter(self)\<close>) and a state \<open>'s\<close> that stands for whatever the body may change,
  so that a call that happens is visible in the state.
\<close>

datatype param = NoDefault | Default pyval

type_synonym namespace = "string \<rightharpoonup> pyval"

record 's getter =
  g_name :: string
  g_doc :: "string option"
  g_hint :: "pytype option"
  g_param :: "param option"
  g_body :: "namespace \<Rightarrow> pyval option \<Rightarrow> 's \<Rightarrow> (exn + pyval) \<times> 's"

datatype wrapper_kind = const_wrapper | plain_wrapper

record argument_info =
  i_getter_name :: string
  i_name :: "string option"
  i_number :: nat
  i_args :: "string list"
  i_kwds :: kwds

text \<open>The function the decorator returns, with its \<open>__argument_info\<close> attribute.\<close>

record 's accessor =
  w_kind :: wrapper_kind
  w_argument_name :: string
  w_getter :: "'s getter"
  w_info :: argument_info

text \<open>The \<open>bool\<close>, \<open>list\<close> and \<open>Union\<close> branches of \<open>_GenerateArgumentGetter.__call__\<close>:
  the keywords and the coercion type they leave.\<close>

definition infer_shape :: "kwds \<Rightarrow> pytype option \<Rightarrow> exn + (kwds \<times> pytype option)" where
  "infer_shape kw argument_type =
     (let origin_type = get_origin argument_type;
          type_args = get_args argument_type
      in if argument_type = Some TBool then
           Inr (kw\<lparr>k_required := Some False, k_action := Some store_true\<rparr>, None)
         else if origin_type = Some OriginList then
           (if length type_args > 1 then
              Inl (TypeError (''You should set the return type of argument function '' @
                              ''to list that contains only one type.''))
            else
              (let kw' = kw\<lparr>k_nargs := Some (case k_nargs kw of None \<Rightarrow> NStar | Some n \<Rightarrow> n)\<rparr>
               in case type_args of
                    [] \<Rightarrow> Inl IndexError
                  | t # _ \<Rightarrow> Inr (kw', Some t)))
         else if origin_type = Some OriginUnion then
           (if length type_args \<noteq> 2 then Inl (TypeError ''Union type is not allowed.'')
            else case isinstance_None (type_args ! 1) of
                   Inl e \<Rightarrow> Inl e
                 | Inr b \<Rightarrow>
                     if \<not> b then Inl (TypeError ''Union type is not allowed.'')
                     else Inr (kw\<lparr>k_required := Some False\<rparr>, Some (type_args ! 0)))
         else Inr (kw, argument_type))"

text \<open>The \<open>if argument_type is not None\<close> block: the default of the signature and
  the coercion type.\<close>

definition apply_signature :: "'s getter \<Rightarrow> kwds \<Rightarrow> pytype option \<Rightarrow> exn + kwds" where
  "apply_signature getter kw argument_type =
     (case argument_type of
        None \<Rightarrow> Inr kw
      | Some t \<Rightarrow>
          (case g_param getter of
             None \<Rightarrow> Inl (KeyError ''value'')
           | Some NoDefault \<Rightarrow> Inr (kw\<lparr>k_type := Some t\<rparr>)
           | Some (Default d) \<Rightarrow>
               Inr (kw\<lparr>k_required := Some False, k_default := Some d, k_type := Some t\<rparr>)))"

text \<open>
  \<open>_GenerateArgumentGetter.__call__(getter, *args, name=None, **kwds)\<close>. The counter
  \<open>__num_arguments\<close> of the generator is passed in and returned; a call that raises
  leaves it as it was.
\<close>

definition generate_argument_getter ::
  "nat \<Rightarrow> 's getter \<Rightarrow> string list \<Rightarrow> string option \<Rightarrow> kwds \<Rightarrow> exn + ('s accessor \<times> nat)" where
  "generate_argument_getter num_arguments getter args name kwds0 =
     (let argument_name = g_name getter;
          kw1 = kwds0\<lparr>k_required := Some True\<rparr>;
          kw2 = (case g_doc getter of None \<Rightarrow> kw1 | Some d \<Rightarrow> kw1\<lparr>k_help := Some d\<rparr>);
          argument_type = g_hint getter;
          is_const = (case k_const kw2 of None \<Rightarrow> False | Some c \<Rightarrow> truthy c)
      in if \<not> is_const \<and> argument_type = None then
           Inl (ValueError ''An argument function should have value parameter.'')
         else
           (let kw3 = (if is_const
                       then kw2\<lparr>k_required := Some False, k_action := Some store_const\<rparr>
                       else kw2)
            in case infer_shape kw3 argument_type of
                 Inl e \<Rightarrow> Inl e
               | Inr (kw4, argument_type') \<Rightarrow>
                   (case apply_signature getter kw4 argument_type' of
                      Inl e \<Rightarrow> Inl e
                    | Inr kw5 \<Rightarrow>
                        Inr (\<lparr>w_kind = (if is_const then const_wrapper else plain_wrapper),
                              w_argument_name = argument_name,
                              w_getter = getter,
                              w_info = \<lparr>i_getter_name = g_name getter, i_name = name,
                                        i_number = num_arguments, i_args = args,
                                        i_kwds = kw5\<rparr>\<rparr>,
                             num_arguments + 1))))"

text \<open>The keyword arguments of \<open>argument(...)\<close>.\<close>

datatype aliases = AliasStr string | AliasList "string list"

record options =
  o_name :: "string option"
  o_aliases :: "aliases option"
  o_metavar :: "string option"
  o_choices :: "pyval list option"
  o_const :: pyval
  o_nargs :: "nargs option"

definition no_options :: options where
  "no_options = \<lparr>o_name = None, o_aliases = None, o_metavar = None, o_choices = None,
     o_const = VBool False, o_nargs = None\<rparr>"

text \<open>\<open>str.replace(old, new)\<close> for one-character strings.\<close>

definition replace_char :: "char \<Rightarrow> char \<Rightarrow> string \<Rightarrow> string" where
  "replace_char old new s = map (\<lambda>c. if c = old then new else c) s"

definition alias_flag :: "string \<Rightarrow> string" where
  "alias_flag alias =
     (if length alias = 1 then ''-'' @ alias
      else ''--'' @ replace_char (CHR ''_'') (CHR ''-'') alias)"

definition alias_flags :: "aliases option \<Rightarrow> string list" where
  "alias_flags al =
     (case al of
        None \<Rightarrow> []
      | Some (AliasStr a) \<Rightarrow> [alias_flag a]
      | Some (AliasList as) \<Rightarrow> map alias_flag as)"

definition option_kwds :: "options \<Rightarrow> kwds" where
  "option_kwds opts =
     (let kw1 = (case o_nargs opts of None \<Rightarrow> empty_kwds | Some n \<Rightarrow> empty_kwds\<lparr>k_nargs := Some n\<rparr>);
          kw2 = (if truthy (o_const opts) then kw1\<lparr>k_const := Some (o_const opts)\<rparr> else kw1);
          kw3 = (case o_choices opts of None \<Rightarrow> kw2 | Some c \<Rightarrow> kw2\<lparr>k_choices := Some c\<rparr>);
          kw4 = (case o_metavar opts of None \<Rightarrow> kw3 | Some m \<Rightarrow> kw3\<lparr>k_metavar := Some m\<rparr>)
      in kw4)"

text \<open>
  \<open>argument\<close>, in its two uses: \<open>@argument\<close> applied to the getter itself, and
  \<open>@argument(name=..., aliases=..., ...)\<close>, which returns the decorator.
\<close>

datatype decorator = Bare | WithOptions options

definition argument :: "decorator \<Rightarrow> nat \<Rightarrow> 's getter \<Rightarrow> exn + ('s accessor \<times> nat)" where
  "argument dec num_arguments getter =
     (case dec of
        Bare \<Rightarrow> generate_argument_getter num_arguments getter [] None empty_kwds
      | WithOptions opts \<Rightarrow>
          generate_argument_getter num_arguments getter
            (alias_flags (o_aliases opts)) (o_name opts) (option_kwds opts))"

text \<open>The keywords of a compiled declaration.\<close>

definition compiled_kwds :: "exn + ('s accessor \<times> nat) \<Rightarrow> exn + kwds" where
  "compiled_kwds r = map_sum id (\<lambda>x. i_kwds (w_info (fst x))) r"

section \<open>The grammar engine\<close>

text \<open>
  The engine is the \<open>argparse\<close> module of the Python standard library, which the
  repository imports and does not contain. The definitions of this section follow
  its source (CPython 3.11, \<open>Lib/argparse.py\<close>) for what \<open>ArgumentParser.__init__\<close>
  of the repository uses: a parser created with the default settings, whose
  arguments are all flags registered with the actions \<open>store\<close>, \<open>store_const\<close> and
  \<open>store_true\<close>, beside the \<open>-h/--help\<close> flag the engine adds itself. Strings are
  byte strings; \<open>\d\<close> and whitespace are the ASCII ones.

  What calling a type on a token returns, and \<open>==\<close> on values (the membership test
  of \<open>choices\<close>), belong to the Python runtime; they are parameters.
  \<open>call_type t s = None\<close> stands for a call that raises \<open>TypeError\<close>,
  \<open>ValueError\<close> or \<open>ArgumentTypeError\<close>.
\<close>

record runtime =
  call_type :: "pytype \<Rightarrow> string \<Rightarrow> pyval option"
  py_eq :: "pyval \<Rightarrow> pyval \<Rightarrow> bool"

datatype action_class = StoreAction | StoreConstAction | HelpAction

datatype dflt = SUPPRESS | Value pyval

text \<open>An \<open>Action\<close> object. \<open>a_dest = None\<close> is \<open>dest=SUPPRESS\<close>.\<close>

record action =
  a_class :: action_class
  a_option_strings :: "string list"
  a_dest :: "string option"
  a_nargs :: "nargs option"
  a_const :: pyval
  a_default :: dflt
  a_type :: "pytype option"
  a_choices :: "pyval list option"
  a_required :: bool
  a_help :: "string option"
  a_metavar :: "string option"

text \<open>A dictionary that keeps insertion order: assigning to a key that is present
  replaces its value in place.\<close>

fun dict_set :: "'k \<Rightarrow> 'v \<Rightarrow> ('k \<times> 'v) list \<Rightarrow> ('k \<times> 'v) list" where
  "dict_set k v [] = [(k, v)]"
| "dict_set k v ((k', v') # d) = (if k' = k then (k, v) # d else (k', v') # dict_set k v d)"

record parser =
  p_prog :: "string option"
  p_usage :: "string option"
  p_description :: "string option"
  p_epilog :: "string option"
  p_actions :: "action list"
  p_option_string_actions :: "(string \<times> action) list"
  p_has_negative_number_optionals :: bool

definition is_digit :: "char \<Rightarrow> bool" where
  "is_digit c = (c \<in> set ''0123456789'')"

text \<open>The \<open>_negative_number_matcher\<close>, \<open>^-\d+$|^-\d*\.\d+$\<close>.\<close>

definition negative_number_like :: "string \<Rightarrow> bool" where
  "negative_number_like s =
     (case s of
        [] \<Rightarrow> False
      | c # r \<Rightarrow>
          c = CHR ''-'' \<and>
          ((r \<noteq> [] \<and> list_all is_digit r) \<or>
           (case dropWhile is_digit r of
              [] \<Rightarrow> False
            | d # ds \<Rightarrow> d = CHR ''.'' \<and> ds \<noteq> [] \<and> list_all is_digit ds)))"

text \<open>\<open>_get_optional_kwargs\<close>: the option strings are checked and, unless \<open>dest\<close> was
  given, the destination is inferred from the first long option string.\<close>

fun check_option_strings :: "string list \<Rightarrow> exn + unit" where
  "check_option_strings [] = Inr ()"
| "check_option_strings (s # ss) =
     (case s of
        [] \<Rightarrow> Inl IndexError
      | c # _ \<Rightarrow>
          if c \<noteq> CHR ''-'' then Inl (ValueError ''invalid option string'')
          else check_option_strings ss)"

definition is_long_option :: "string \<Rightarrow> bool" where
  "is_long_option s = (length s > 1 \<and> s ! 1 = CHR ''-'')"

definition infer_dest :: "string list \<Rightarrow> exn + string" where
  "infer_dest args =
     (let dest_option_string =
            (case filter is_long_option args of
               [] \<Rightarrow> hd args
             | l # _ \<Rightarrow> l);
          d = dropWhile (\<lambda>c. c = CHR ''-'') dest_option_string
      in if d = [] then Inl (ValueError ''dest= is required for options like this'')
         else Inr (replace_char (CHR ''-'') (CHR ''_'') d))"

definition get_optional_kwargs :: "string list \<Rightarrow> kwds \<Rightarrow> exn + string" where
  "get_optional_kwargs args kw =
     (case check_option_strings args of
        Inl e \<Rightarrow> Inl e
      | Inr _ \<Rightarrow> (case k_dest kw of Some d \<Rightarrow> Inr d | None \<Rightarrow> infer_dest args))"

text \<open>
  The action classes and their constructors. A keyword the constructor does not
  accept is a \<open>TypeError\<close>: \<open>_StoreConstAction\<close> takes no \<open>nargs\<close>, \<open>type\<close> or
  \<open>choices\<close> (and drops \<open>metavar\<close>); \<open>_StoreTrueAction\<close> takes none of these, no
  \<open>const\<close> and no \<open>metavar\<close>.
\<close>

definition unexpected_keyword :: exn where
  "unexpected_keyword = TypeError ''__init__() got an unexpected keyword argument''"

definition make_action :: "string list \<Rightarrow> string \<Rightarrow> kwds \<Rightarrow> exn + action" where
  "make_action args d kw =
     (let req = (case k_required kw of None \<Rightarrow> False | Some r \<Rightarrow> r);
          dfl = (case k_default kw of None \<Rightarrow> VNone | Some v \<Rightarrow> v);
          cst = (case k_const kw of None \<Rightarrow> VNone | Some v \<Rightarrow> v)
      in case k_action kw of
           None \<Rightarrow>
             if k_nargs kw = Some (NInt 0) then
               Inl (ValueError ''nargs for store actions must be != 0'')
             else if cst \<noteq> VNone then
               Inl (ValueError ''nargs must be ? to supply const'')
             else
               Inr \<lparr>a_class = StoreAction, a_option_strings = args, a_dest = Some d,
                    a_nargs = k_nargs kw, a_const = cst, a_default = Value dfl,
                    a_type = k_type kw, a_choices = k_choices kw, a_required = req,
                    a_help = k_help kw, a_metavar = k_metavar kw\<rparr>
         | Some store_const \<Rightarrow>
             if k_nargs kw \<noteq> None \<or> k_type kw \<noteq> None \<or> k_choices kw \<noteq> None then
               Inl unexpected_keyword
             else
               Inr \<lparr>a_class = StoreConstAction, a_option_strings = args, a_dest = Some d,
                    a_nargs = Some (NInt 0), a_const = cst, a_default = Value dfl,
                    a_type = None, a_choices = None, a_required = req,
                    a_help = k_help kw, a_metavar = None\<rparr>
         | Some store_true \<Rightarrow>
             if k_nargs kw \<noteq> None \<or> k_type kw \<noteq> None \<or> k_choices kw \<noteq> None \<or>
                k_const kw \<noteq> None \<or> k_metavar kw \<noteq> None then
               Inl unexpected_keyword
             else
               Inr \<lparr>a_class = StoreConstAction, a_option_strings = args, a_dest = Some d,
                    a_nargs = Some (NInt 0), a_const = VBool True,
                    a_default = Value (case k_default kw of None \<Rightarrow> VBool False | Some v \<Rightarrow> v),
                    a_type = None, a_choices = None, a_required = req,
                    a_help = k_help kw, a_metavar = None\<rparr>)"

text \<open>\<open>_add_action\<close> with the conflict handler \<open>error\<close>.\<close>

definition add_action :: "parser \<Rightarrow> action \<Rightarrow> exn + parser" where
  "add_action P a =
     (if list_ex (\<lambda>s. map_of (p_option_string_actions P) s \<noteq> None) (a_option_strings a) then
        Inl (ArgumentError ''conflicting option string'')
      else
        Inr (P\<lparr>p_actions := p_actions P @ [a],
               p_option_string_actions :=
                 fold (\<lambda>s d. dict_set s a d) (a_option_strings a) (p_option_string_actions P),
               p_has_negative_number_optionals :=
                 (p_has_negative_number_optionals P \<or>
                  list_ex negative_number_like (a_option_strings a))\<rparr>))"

text \<open>
  \<open>add_argument(*args, **kwargs)\<close> where the first option string starts with a
  dash, which is how \<open>ArgumentParser.__init__\<close> of the repository calls it
  (\<open>f"--{argument_name}"\<close> comes first): the branch for flags.
\<close>

definition add_argument :: "parser \<Rightarrow> string list \<Rightarrow> kwds \<Rightarrow> exn + parser" where
  "add_argument P args kw =
     (case get_optional_kwargs args kw of
        Inl e \<Rightarrow> Inl e
      | Inr d \<Rightarrow>
          (case make_action args d kw of
             Inl e \<Rightarrow> Inl e
           | Inr a \<Rightarrow> add_action P a))"

definition help_action :: action where
  "help_action =
     \<lparr>a_class = HelpAction, a_option_strings = [''-h'', ''--help''], a_dest = None,
      a_nargs = Some (NInt 0), a_const = VNone, a_default = SUPPRESS, a_type = None,
      a_choices = None, a_required = False,
      a_help = Some ''show this help message and exit'', a_metavar = None\<rparr>"

text \<open>\<open>argparse.ArgumentParser(**kwds)\<close>: a parser that holds the help flag.\<close>

definition new_parser ::
  "string option \<Rightarrow> string option \<Rightarrow> string option \<Rightarrow> string option \<Rightarrow> parser" where
  "new_parser prog usage description epilog =
     \<lparr>p_prog = prog, p_usage = usage, p_description = description, p_epilog = epilog,
      p_actions = [help_action],
      p_option_string_actions = [(''-h'', help_action), (''--help'', help_action)],
      p_has_negative_number_optionals = False\<rparr>"

subsection \<open>Parsing\<close>

text \<open>
  What \<open>_parse_optional\<close> returns for an argument string that is a flag: the action
  (\<open>None\<close>: no such flag), the option string, the separator and the explicit
  argument (as in \<open>--flag=value\<close> or \<open>-fvalue\<close>).
\<close>

type_synonym option_tuple = "action option \<times> string \<times> string option \<times> string option"

text \<open>The pattern of the argument strings: \<open>A\<close> an argument, \<open>O\<close> a flag, \<open>-\<close> the
  string \<open>--\<close>.\<close>

datatype pattern = PA | PO option_tuple | PDash

text \<open>\<open>str.partition('=')\<close>: the part before the first \<open>=\<close>, and the part after it
  when there is one.\<close>

definition partition_eq :: "string \<Rightarrow> string \<times> string option" where
  "partition_eq s =
     (if CHR ''='' \<in> set s
      then (takeWhile (\<lambda>c. c \<noteq> CHR ''='') s, Some (tl (dropWhile (\<lambda>c. c \<noteq> CHR ''='') s)))
      else (s, None))"

definition startswith :: "string \<Rightarrow> string \<Rightarrow> bool" where
  "startswith s p = (take (length p) s = p)"

definition get_option_tuples :: "parser \<Rightarrow> string \<Rightarrow> option_tuple list" where
  "get_option_tuples P option_string =
     (if option_string ! 1 = CHR ''-'' then
        (let (option_prefix, explicit_arg) = partition_eq option_string;
             sep = (case explicit_arg of None \<Rightarrow> None | Some _ \<Rightarrow> Some ''='')
         in map (\<lambda>(k, a). (Some a, k, sep, explicit_arg))
              (filter (\<lambda>(k, a). startswith k option_prefix) (p_option_string_actions P)))
      else
        (let short_option_prefix = take 2 option_string;
             short_explicit_arg = drop 2 option_string
         in concat (map (\<lambda>(k, a).
                      if k = short_option_prefix
                      then [(Some a, k, Some [], Some short_explicit_arg)]
                      else if startswith k option_string then [(Some a, k, None, None)]
                      else [])
              (p_option_string_actions P))))"

text \<open>\<open>_parse_optional\<close>; \<open>self.error\<close> on an ambiguous abbreviation exits with
  status 2.\<close>

definition parse_optional :: "parser \<Rightarrow> string \<Rightarrow> exn + option_tuple option" where
  "parse_optional P arg_string =
     (if arg_string = [] then Inr None
      else if hd arg_string \<noteq> CHR ''-'' then Inr None
      else case map_of (p_option_string_actions P) arg_string of
             Some a \<Rightarrow> Inr (Some (Some a, arg_string, None, None))
           | None \<Rightarrow>
               if length arg_string = 1 then Inr None
               else
                 (let (option_string, explicit_arg) = partition_eq arg_string
                  in case (explicit_arg, map_of (p_option_string_actions P) option_string) of
                       (Some ea, Some a) \<Rightarrow> Inr (Some (Some a, option_string, Some ''='', Some ea))
                     | _ \<Rightarrow>
                         (let option_tuples = get_option_tuples P arg_string
                          in if length option_tuples > 1 then Inl (SystemExit 2)
                             else if length option_tuples = 1 then Inr (Some (hd option_tuples))
                             else if negative_number_like arg_string \<and>
                                     \<not> p_has_negative_number_optionals P then Inr None
                             else if CHR '' '' \<in> set arg_string then Inr None
                             else Inr (Some (None, arg_string, None, None)))))"

text \<open>The first loop of \<open>_parse_known_args\<close>: every argument string with its
  pattern. After \<open>--\<close> all strings are arguments.\<close>

fun classify :: "parser \<Rightarrow> string list \<Rightarrow> exn + (string \<times> pattern) list" where
  "classify P [] = Inr []"
| "classify P (s # ss) =
     (if s = ''--'' then Inr ((s, PDash) # map (\<lambda>t. (t, PA)) ss)
      else case parse_optional P s of
             Inl e \<Rightarrow> Inl e
           | Inr tup \<Rightarrow>
               (case classify P ss of
                  Inl e \<Rightarrow> Inl e
                | Inr cs \<Rightarrow> Inr ((s, case tup of None \<Rightarrow> PA | Some t \<Rightarrow> PO t) # cs)))"

text \<open>
  \<open>_match_argument\<close> for a flag: the \<open>nargs\<close> pattern (\<open>A\<close>, \<open>A{n}\<close>, \<open>A*\<close>, \<open>A+\<close>)
  is matched against the head of the pattern of the strings that follow, and the
  number of strings matched is returned.
\<close>

definition is_PA :: "pattern \<Rightarrow> bool" where
  "is_PA p = (p = PA)"

definition match_argument :: "action \<Rightarrow> pattern list \<Rightarrow> exn + nat" where
  "match_argument a pats =
     (let count = length (takeWhile is_PA pats)
      in case a_nargs a of
           None \<Rightarrow> if count \<ge> 1 then Inr 1 else Inl (ArgumentError ''expected one argument'')
         | Some (NInt n) \<Rightarrow>
             if n \<le> 0 then Inr 0
             else if nat n \<le> count then Inr (nat n)
             else Inl (ArgumentError ''expected n arguments'')
         | Some NStar \<Rightarrow> Inr count
         | Some NPlus \<Rightarrow>
             if count \<ge> 1 then Inr count
             else Inl (ArgumentError ''expected at least one argument''))"

text \<open>\<open>_get_value\<close>, \<open>_check_value\<close> and \<open>_get_values\<close> (for a flag).\<close>

definition get_value :: "runtime \<Rightarrow> action \<Rightarrow> string \<Rightarrow> exn + pyval" where
  "get_value rt a arg_string =
     (case a_type a of
        None \<Rightarrow> Inr (VStr arg_string)
      | Some t \<Rightarrow>
          (case call_type rt t arg_string of
             None \<Rightarrow> Inl (ArgumentError ''invalid value'')
           | Some v \<Rightarrow> Inr v))"

definition check_value :: "runtime \<Rightarrow> action \<Rightarrow> pyval \<Rightarrow> exn + unit" where
  "check_value rt a v =
     (case a_choices a of
        None \<Rightarrow> Inr ()
      | Some cs \<Rightarrow> if list_ex (py_eq rt v) cs then Inr () else Inl (ArgumentError ''invalid choice''))"

fun get_value_list :: "runtime \<Rightarrow> action \<Rightarrow> string list \<Rightarrow> exn + pyval list" where
  "get_value_list rt a [] = Inr []"
| "get_value_list rt a (s # ss) =
     (case get_value rt a s of
        Inl e \<Rightarrow> Inl e
      | Inr v \<Rightarrow> (case get_value_list rt a ss of Inl e \<Rightarrow> Inl e | Inr vs \<Rightarrow> Inr (v # vs)))"

fun check_value_list :: "runtime \<Rightarrow> action \<Rightarrow> pyval list \<Rightarrow> exn + unit" where
  "check_value_list rt a [] = Inr ()"
| "check_value_list rt a (v # vs) =
     (case check_value rt a v of Inl e \<Rightarrow> Inl e | Inr _ \<Rightarrow> check_value_list rt a vs)"

definition get_values :: "runtime \<Rightarrow> action \<Rightarrow> string list \<Rightarrow> exn + pyval" where
  "get_values rt a arg_strings =
     (if length arg_strings = 1 \<and> a_nargs a = None then
        (case get_value rt a (hd arg_strings) of
           Inl e \<Rightarrow> Inl e
         | Inr v \<Rightarrow> (case check_value rt a v of Inl e \<Rightarrow> Inl e | Inr _ \<Rightarrow> Inr v))
      else
        (case get_value_list rt a arg_strings of
           Inl e \<Rightarrow> Inl e
         | Inr vs \<Rightarrow> (case check_value_list rt a vs of Inl e \<Rightarrow> Inl e | Inr _ \<Rightarrow> Inr (VList vs))))"

text \<open>The variables of \<open>_parse_known_args\<close> that its inner functions change.\<close>

record pstate =
  ps_namespace :: namespace
  ps_seen_actions :: "action set"
  ps_extras :: "string list"

text \<open>
  \<open>take_action\<close>: the action is recorded as seen, its values are converted and the
  action is called. \<open>_HelpAction\<close> prints the help and exits with status 0.
\<close>

definition set_dest :: "action \<Rightarrow> pyval \<Rightarrow> namespace \<Rightarrow> namespace" where
  "set_dest a v ns = (case a_dest a of None \<Rightarrow> ns | Some d \<Rightarrow> ns(d \<mapsto> v))"

definition take_action :: "runtime \<Rightarrow> action \<Rightarrow> string list \<Rightarrow> pstate \<Rightarrow> exn + pstate" where
  "take_action rt a argument_strings st =
     (case get_values rt a argument_strings of
        Inl e \<Rightarrow> Inl e
      | Inr argument_values \<Rightarrow>
          (let st' = st\<lparr>ps_seen_actions := insert a (ps_seen_actions st)\<rparr>
           in case a_class a of
                StoreAction \<Rightarrow>
                  Inr (st'\<lparr>ps_namespace := set_dest a argument_values (ps_namespace st)\<rparr>)
              | StoreConstAction \<Rightarrow>
                  Inr (st'\<lparr>ps_namespace := set_dest a (a_const a) (ps_namespace st)\<rparr>)
              | HelpAction \<Rightarrow> Inl (SystemExit 0)))"

fun take_actions ::
  "runtime \<Rightarrow> (action \<times> string list \<times> string) list \<Rightarrow> pstate \<Rightarrow> exn + pstate" where
  "take_actions rt [] st = Inr st"
| "take_actions rt ((a, args, option_string) # ts) st =
     (case take_action rt a args st of
        Inl e \<Rightarrow> Inl e
      | Inr st' \<Rightarrow> take_actions rt ts st')"

text \<open>
  The loop of \<open>consume_optional\<close> while there is an explicit argument. It ends with
  the action tuples collected, the strings added to \<open>extras\<close>, and, when the
  explicit argument was used up by single-dash flags that take no value, the flag
  whose arguments are to be matched against the strings that follow.
\<close>

function explicit_loop ::
  "parser \<Rightarrow> action \<Rightarrow> string \<Rightarrow> string option \<Rightarrow> string \<Rightarrow>
   (action \<times> string list \<times> string) list \<Rightarrow>
   exn + ((action \<times> string list \<times> string) list \<times> string list \<times> (action \<times> string) option)" where
  "explicit_loop P a option_string sep explicit_arg action_tuples =
     (case match_argument a [PA] of
        Inl e \<Rightarrow> Inl e
      | Inr arg_count \<Rightarrow>
          if length option_string < 2 then Inl IndexError
          else if arg_count = 0 \<and> option_string ! 1 \<noteq> CHR ''-'' \<and> explicit_arg \<noteq> [] then
            (if (sep \<noteq> None \<and> sep \<noteq> Some []) \<or> hd explicit_arg = CHR ''-'' then
               Inl (ArgumentError ''ignored explicit argument'')
             else
               (let action_tuples' = action_tuples @ [(a, [], option_string)];
                    char = hd option_string;
                    option_string' = [char, hd explicit_arg]
                in case map_of (p_option_string_actions P) option_string' of
                     Some a' \<Rightarrow>
                       (let explicit_arg' = tl explicit_arg
                        in if explicit_arg' = [] then
                             Inr (action_tuples', [], Some (a', option_string'))
                           else if hd explicit_arg' = CHR ''='' then
                             explicit_loop P a' option_string' (Some ''='') (tl explicit_arg')
                               action_tuples'
                           else
                             explicit_loop P a' option_string' (Some []) explicit_arg'
                               action_tuples')
                   | None \<Rightarrow> Inr (action_tuples', [char # explicit_arg], None)))
          else if arg_count = 1 then
            Inr (action_tuples @ [(a, [explicit_arg], option_string)], [], None)
          else Inl (ArgumentError ''ignored explicit argument''))"
  by pat_completeness auto
termination
  by (relation "measure (\<lambda>(P, a, os, sep, ea, ts). length ea)") auto

declare explicit_loop.simps [simp del]

text \<open>
  \<open>consume_optional\<close>, at a string that is a flag: the number of the following
  strings it consumes, and the state after the actions were taken. \<open>rest\<close> are the
  strings after the flag, with their patterns.
\<close>

definition consume_optional ::
  "runtime \<Rightarrow> parser \<Rightarrow> string \<Rightarrow> option_tuple \<Rightarrow> (string \<times> pattern) list \<Rightarrow> pstate \<Rightarrow>
   exn + (nat \<times> pstate)" where
  "consume_optional rt P arg_string tup rest st =
     (case tup of
        (None, _, _, _) \<Rightarrow> Inr (0, st\<lparr>ps_extras := ps_extras st @ [arg_string]\<rparr>)
      | (Some a, option_string, sep, None) \<Rightarrow>
          (case match_argument a (map snd rest) of
             Inl e \<Rightarrow> Inl e
           | Inr arg_count \<Rightarrow>
               (case take_actions rt [(a, map fst (take arg_count rest), option_string)] st of
                  Inl e \<Rightarrow> Inl e
                | Inr st' \<Rightarrow> Inr (arg_count, st')))
      | (Some a, option_string, sep, Some explicit_arg) \<Rightarrow>
          (case explicit_loop P a option_string sep explicit_arg [] of
             Inl e \<Rightarrow> Inl e
           | Inr (action_tuples, extra, None) \<Rightarrow>
               (case take_actions rt action_tuples (st\<lparr>ps_extras := ps_extras st @ extra\<rparr>) of
                  Inl e \<Rightarrow> Inl e
                | Inr st' \<Rightarrow> Inr (0, st'))
           | Inr (action_tuples, extra, Some (a', option_string')) \<Rightarrow>
               (case match_argument a' (map snd rest) of
                  Inl e \<Rightarrow> Inl e
                | Inr arg_count \<Rightarrow>
                    (case take_actions rt
                            (action_tuples @ [(a', map fst (take arg_count rest), option_string')])
                            (st\<lparr>ps_extras := ps_extras st @ extra\<rparr>) of
                       Inl e \<Rightarrow> Inl e
                     | Inr st' \<Rightarrow> Inr (arg_count, st')))))"

text \<open>
  The main loop of \<open>_parse_known_args\<close> for a parser without positionals: flags are
  consumed in turn with the arguments their \<open>nargs\<close> matches, and every string no
  flag consumed goes to \<open>extras\<close>.
\<close>

function parse_loop ::
  "runtime \<Rightarrow> parser \<Rightarrow> (string \<times> pattern) list \<Rightarrow> pstate \<Rightarrow> exn + pstate" where
  "parse_loop rt P [] st = Inr st"
| "parse_loop rt P ((s, PO tup) # cs) st =
     (case consume_optional rt P s tup cs st of
        Inl e \<Rightarrow> Inl e
      | Inr (n, st') \<Rightarrow> parse_loop rt P (drop n cs) st')"
| "parse_loop rt P ((s, PA) # cs) st = parse_loop rt P cs (st\<lparr>ps_extras := ps_extras st @ [s]\<rparr>)"
| "parse_loop rt P ((s, PDash) # cs) st = parse_loop rt P cs (st\<lparr>ps_extras := ps_extras st @ [s]\<rparr>)"
  by pat_completeness auto
termination
  by (relation "measure (\<lambda>(rt, P, cs, st). length cs)") auto

text \<open>
  After the loop: a required action that was not seen is an error; the default of
  an action that was not seen, when it is a string, is converted by the type of the
  action. (The source compares the default and the value in the namespace by
  identity; the model compares them by value.)
\<close>

fun convert_defaults :: "runtime \<Rightarrow> action list \<Rightarrow> action set \<Rightarrow> namespace \<Rightarrow> exn + namespace" where
  "convert_defaults rt [] seen ns = Inr ns"
| "convert_defaults rt (a # as) seen ns =
     (if a \<in> seen \<or> a_required a then convert_defaults rt as seen ns
      else case (a_default a, a_dest a) of
             (Value (VStr s), Some d) \<Rightarrow>
               (if ns d = Some (VStr s) then
                  (case get_value rt a s of
                     Inl e \<Rightarrow> Inl e
                   | Inr v \<Rightarrow> convert_defaults rt as seen (ns(d \<mapsto> v)))
                else convert_defaults rt as seen ns)
           | _ \<Rightarrow> convert_defaults rt as seen ns)"

definition required_actions :: "parser \<Rightarrow> action set \<Rightarrow> action list" where
  "required_actions P seen = filter (\<lambda>a. a \<notin> seen \<and> a_required a) (p_actions P)"

text \<open>The namespace \<open>parse_known_args\<close> starts from: the defaults of the actions,
  the first action of a destination giving its default.\<close>

fun initial_namespace :: "action list \<Rightarrow> namespace \<Rightarrow> namespace" where
  "initial_namespace [] ns = ns"
| "initial_namespace (a # as) ns =
     initial_namespace as
       (case (a_dest a, a_default a) of
          (Some d, Value v) \<Rightarrow> (if ns d = None then ns(d \<mapsto> v) else ns)
        | _ \<Rightarrow> ns)"

definition parse_known_args_inner :: "runtime \<Rightarrow> parser \<Rightarrow> string list \<Rightarrow> exn + pstate" where
  "parse_known_args_inner rt P arg_strings =
     (case classify P arg_strings of
        Inl e \<Rightarrow> Inl e
      | Inr cs \<Rightarrow>
          (case parse_loop rt P cs
                  \<lparr>ps_namespace = initial_namespace (p_actions P) Map.empty,
                   ps_seen_actions = {}, ps_extras = []\<rparr> of
             Inl e \<Rightarrow> Inl e
           | Inr st \<Rightarrow>
               (case convert_defaults rt (p_actions P) (ps_seen_actions st) (ps_namespace st) of
                  Inl e \<Rightarrow> Inl e
                | Inr ns \<Rightarrow>
                    if required_actions P (ps_seen_actions st) \<noteq> [] then Inl (SystemExit 2)
                    else Inr (st\<lparr>ps_namespace := ns\<rparr>))))"

text \<open>\<open>parse_known_args\<close> turns an \<open>ArgumentError\<close> into \<open>self.error\<close>, which exits
  with status 2; \<open>parse_args\<close> does the same when \<open>extras\<close> are left.\<close>

definition parse_known_args :: "runtime \<Rightarrow> parser \<Rightarrow> string list \<Rightarrow> exn + pstate" where
  "parse_known_args rt P arg_strings =
     (case parse_known_args_inner rt P arg_strings of
        Inl (ArgumentError m) \<Rightarrow> Inl (SystemExit 2)
      | Inl e \<Rightarrow> Inl e
      | Inr st \<Rightarrow> Inr st)"

definition parser_parse_args :: "runtime \<Rightarrow> parser \<Rightarrow> string list \<Rightarrow> exn + namespace" where
  "parser_parse_args rt P arg_strings =
     (case parse_known_args rt P arg_strings of
        Inl e \<Rightarrow> Inl e
      | Inr st \<Rightarrow> if ps_extras st \<noteq> [] then Inl (SystemExit 2) else Inr (ps_namespace st))"

section \<open>Parser assembly and dispatch: the class \<open>ArgumentParser\<close>\<close>

text \<open>\<open>str.split()\<close>: the maximal runs of characters that are not whitespace.\<close>

definition is_space :: "char \<Rightarrow> bool" where
  "is_space c = (c \<in> set [CHR 0x09, CHR 0x0A, CHR 0x0B, CHR 0x0C, CHR 0x0D,
                            CHR 0x1C, CHR 0x1D, CHR 0x1E, CHR 0x1F, CHR 0x20])"

fun split_words :: "string \<Rightarrow> string \<Rightarrow> string list" where
  "split_words [] w = (if w = [] then [] else [w])"
| "split_words (c # cs) w =
     (if is_space c then (if w = [] then split_words cs [] else w # split_words cs [])
      else split_words cs (w @ [c]))"

definition py_split :: "string \<Rightarrow> string list" where
  "py_split s = split_words s []"

text \<open>An instance: its class and the attributes \<open>__arguments\<close> and \<open>__parser\<close>
  (\<open>None\<close>: the attribute is not set).\<close>

record pyobject =
  inst_class :: string
  inst_arguments :: "namespace option"
  inst_parser :: "parser option"

record init_args =
  ia_prog :: "string option"
  ia_usage :: "string option"
  ia_description :: "string option"
  ia_epilog :: "string option"
  ia_lazy_parsing :: bool

text \<open>What the loop over \<open>dir(self.__class__)\<close> appends for one accessor: the
  sequence number, the name of the flag, the alias flags and the keywords.\<close>

definition registration :: "argument_info \<Rightarrow> nat \<times> string \<times> string list \<times> kwds" where
  "registration info =
     (case i_name info of
        None \<Rightarrow>
          (i_number info, replace_char (CHR ''_'') (CHR ''-'') (i_getter_name info),
           i_args info, i_kwds info)
      | Some name \<Rightarrow>
          (i_number info, replace_char (CHR ''_'') (CHR ''-'') name,
           i_args info, (i_kwds info)\<lparr>k_dest := Some (i_getter_name info)\<rparr>))"

fun add_arguments :: "parser \<Rightarrow> (nat \<times> string \<times> string list \<times> kwds) list \<Rightarrow> exn + parser" where
  "add_arguments P [] = Inr P"
| "add_arguments P ((number, argument_name, args, kw) # rs) =
     (case add_argument P ((''--'' @ argument_name) # args) kw of
        Inl e \<Rightarrow> Inl e
      | Inr P' \<Rightarrow> add_arguments P' rs)"

text \<open>\<open>sorted(arguments, key=lambda x: x[0])\<close>: a stable sort by sequence number.\<close>

definition sorted_registrations ::
  "'s accessor list \<Rightarrow> (nat \<times> string \<times> string list \<times> kwds) list" where
  "sorted_registrations accessors = sort_key fst (map (\<lambda>acc. registration (w_info acc)) accessors)"

definition build_parser :: "'s accessor list \<Rightarrow> init_args \<Rightarrow> exn + parser" where
  "build_parser accessors ia =
     add_arguments (new_parser (ia_prog ia) (ia_usage ia) (ia_description ia) (ia_epilog ia))
       (sorted_registrations accessors)"

text \<open>
  \<open>ArgumentParser.__init__\<close>. \<open>accessors\<close> are the properties with an
  \<open>__argument_info\<close> that the loop over \<open>dir(self.__class__)\<close> meets, in that
  order; \<open>argv\<close> is \<open>sys.argv[1:]\<close>. The result is the exception raised, if any, and
  the instance as the call leaves it.
\<close>

definition ArgumentParser_init ::
  "runtime \<Rightarrow> 's accessor list \<Rightarrow> init_args \<Rightarrow> string list \<Rightarrow> pyobject \<Rightarrow> exn option \<times> pyobject" where
  "ArgumentParser_init rt accessors ia argv self =
     (case build_parser accessors ia of
        Inl e \<Rightarrow> (Some e, self)
      | Inr parser \<Rightarrow>
          if \<not> ia_lazy_parsing ia then
            (case parser_parse_args rt parser argv of
               Inl e \<Rightarrow> (Some e, self)
             | Inr ns \<Rightarrow> (None, self\<lparr>inst_arguments := Some ns, inst_parser := Some parser\<rparr>))
          else (None, self\<lparr>inst_parser := Some parser\<rparr>))"

text \<open>The property \<open>arguments\<close>.\<close>

definition read_arguments :: "pyobject \<Rightarrow> exn + namespace" where
  "read_arguments self =
     (case inst_arguments self of
        None \<Rightarrow> Inl (AttributeError ''_ArgumentParser__arguments'')
      | Some ns \<Rightarrow> Inr ns)"

text \<open>\<open>parse_args(parameter)\<close>: the attribute is assigned once the engine has
  returned.\<close>

definition parse_args :: "runtime \<Rightarrow> pyobject \<Rightarrow> string \<Rightarrow> exn option \<times> pyobject" where
  "parse_args rt self parameter =
     (case inst_parser self of
        None \<Rightarrow> (Some (AttributeError ''_ArgumentParser__parser''), self)
      | Some parser \<Rightarrow>
          (case parser_parse_args rt parser (py_split parameter) of
             Inl e \<Rightarrow> (Some e, self)
           | Inr ns \<Rightarrow> (None, self\<lparr>inst_arguments := Some ns\<rparr>)))"

text \<open>
  The wrappers \<open>const_wrapper\<close> and \<open>_wrapper\<close> that the decorator returns, called
  on an instance: the result and the state the getter leaves.
\<close>

definition ns_getattr :: "namespace \<Rightarrow> string \<Rightarrow> exn + pyval" where
  "ns_getattr ns name = (case ns name of None \<Rightarrow> Inl (AttributeError name) | Some v \<Rightarrow> Inr v)"

definition call_wrapper :: "'s accessor \<Rightarrow> pyobject \<Rightarrow> 's \<Rightarrow> (exn + pyval) \<times> 's" where
  "call_wrapper acc self s =
     (case read_arguments self of
        Inl e \<Rightarrow> (Inl e, s)
      | Inr ns \<Rightarrow>
          (case ns_getattr ns (w_argument_name acc) of
             Inl e \<Rightarrow> (Inl e, s)
           | Inr v \<Rightarrow>
               (case w_kind acc of
                  const_wrapper \<Rightarrow>
                    if v = VNone then (Inr VNone, s) else g_body (w_getter acc) ns None s
                | plain_wrapper \<Rightarrow> g_body (w_getter acc) ns (Some v) s)))"

subsection \<open>Classes and objects\<close>

text \<open>
  A class that derives from \<open>ArgumentParser\<close>: the rest of its method resolution
  order, its own dictionary (the members a class body defines) and its own
  \<open>__object__\<close> attribute (\<open>None\<close>: not in the dictionary of this class;
  \<open>Some None\<close>: the value \<open>None\<close>). The members of \<open>ArgumentParser\<close> itself and of
  \<open>object\<close> carry no \<open>__argument_info\<close> and are left out.
\<close>

datatype 's member = ArgumentProperty "'s accessor" | OtherMember

record 's pyclass =
  c_bases :: "string list"
  c_dict :: "(string \<times> 's member) list"
  c_object :: "nat option option"

text \<open>The state of the program: the counter of the generator, the classes, the
  objects by identity.\<close>

record 's pystate =
  num_arguments :: nat
  classes :: "string \<rightharpoonup> 's pyclass"
  heap :: "nat \<rightharpoonup> pyobject"
  next_id :: nat

definition initial_state :: "'s pystate" where
  "initial_state =
     \<lparr>num_arguments = 0,
      classes = [''ArgumentParser'' \<mapsto> \<lparr>c_bases = [], c_dict = [], c_object = Some None\<rparr>],
      heap = Map.empty, next_id = 0\<rparr>"

definition mro :: "'s pystate \<Rightarrow> string \<Rightarrow> string list" where
  "mro st cls = (case classes st cls of None \<Rightarrow> [cls] | Some k \<Rightarrow> cls # c_bases k)"

text \<open>A class body: the decorated getters in the order of the text, each either
  under \<open>@property\<close> or not.\<close>

datatype 's decl = Decl bool decorator "'s getter"

fun class_body ::
  "nat \<Rightarrow> 's decl list \<Rightarrow> (string \<times> 's member) list \<Rightarrow>
   exn option \<times> nat \<times> (string \<times> 's member) list" where
  "class_body n [] d = (None, n, d)"
| "class_body n (Decl is_property dec g # ds) d =
     (case argument dec n g of
        Inl e \<Rightarrow> (Some e, n, d)
      | Inr (acc, n') \<Rightarrow>
          class_body n' ds
            (dict_set (g_name g) (if is_property then ArgumentProperty acc else OtherMember) d))"

text \<open>\<open>class name(base): body\<close>. When the body raises, no class is created.\<close>

definition define_class ::
  "'s pystate \<Rightarrow> string \<Rightarrow> string \<Rightarrow> 's decl list \<Rightarrow> exn option \<times> 's pystate" where
  "define_class st name base decls =
     (case classes st base of
        None \<Rightarrow> (Some (NameError base), st)
      | Some b \<Rightarrow>
          (case class_body (num_arguments st) decls [] of
             (Some e, n, d) \<Rightarrow> (Some e, st\<lparr>num_arguments := n\<rparr>)
           | (None, n, d) \<Rightarrow>
               (None, st\<lparr>num_arguments := n,
                         classes := (classes st)
                           (name \<mapsto> \<lparr>c_bases = base # c_bases b, c_dict = d, c_object = None\<rparr>)\<rparr>)))"

text \<open>\<open>dir(cls)\<close> (the names of the members, sorted) and \<open>getattr(cls, name)\<close> (the
  member of the first class of the method resolution order that defines it).\<close>

definition class_dicts :: "'s pystate \<Rightarrow> string \<Rightarrow> (string \<times> 's member) list list" where
  "class_dicts st cls =
     map (\<lambda>c. case classes st c of None \<Rightarrow> [] | Some k \<Rightarrow> c_dict k) (mro st cls)"

definition class_dir :: "'s pystate \<Rightarrow> string \<Rightarrow> string list" where
  "class_dir st cls = sort (remdups (map fst (concat (class_dicts st cls))))"

definition class_getattr :: "'s pystate \<Rightarrow> string \<Rightarrow> string \<Rightarrow> 's member option" where
  "class_getattr st cls name = map_of (concat (class_dicts st cls)) name"

definition class_accessors :: "'s pystate \<Rightarrow> string \<Rightarrow> 's accessor list" where
  "class_accessors st cls =
     concat (map (\<lambda>name. case class_getattr st cls name of
                            Some (ArgumentProperty acc) \<Rightarrow> [acc]
                          | _ \<Rightarrow> [])
                 (class_dir st cls))"

text \<open>\<open>cls.__object__\<close>: the attribute of the first class of the method resolution
  order that has one.\<close>

fun lookup_object :: "'s pystate \<Rightarrow> string list \<Rightarrow> nat option" where
  "lookup_object st [] = None"
| "lookup_object st (c # cs) =
     (case classes st c of
        None \<Rightarrow> lookup_object st cs
      | Some k \<Rightarrow> (case c_object k of None \<Rightarrow> lookup_object st cs | Some v \<Rightarrow> v))"

text \<open>\<open>ArgumentParser.__new__(cls)\<close>.\<close>

definition ArgumentParser_new :: "'s pystate \<Rightarrow> string \<Rightarrow> nat \<times> 's pystate" where
  "ArgumentParser_new st cls =
     (case lookup_object st (mro st cls) of
        Some obj \<Rightarrow> (obj, st)
      | None \<Rightarrow>
          (let obj = next_id st
           in (obj, st\<lparr>next_id := obj + 1,
                       heap := (heap st)(obj \<mapsto> \<lparr>inst_class = cls, inst_arguments = None,
                                                   inst_parser = None\<rparr>),
                       classes := (case classes st cls of
                                     None \<Rightarrow> classes st
                                   | Some k \<Rightarrow> (classes st)(cls \<mapsto> k\<lparr>c_object := Some (Some obj)\<rparr>))\<rparr>)))"

definition isinstance :: "'s pystate \<Rightarrow> nat \<Rightarrow> string \<Rightarrow> bool" where
  "isinstance st obj cls =
     (case heap st obj of None \<Rightarrow> False | Some self \<Rightarrow> cls \<in> set (mro st (inst_class self)))"

text \<open>
  The call \<open>cls(prog, usage, description, epilog, lazy_parsing)\<close>: \<open>__new__\<close>, and
  \<open>__init__\<close> on the object it returned when that is an instance of \<open>cls\<close>. The
  result is the object (or the exception \<open>__init__\<close> raised) and the new state.
\<close>

definition construct ::
  "runtime \<Rightarrow> 's pystate \<Rightarrow> string \<Rightarrow> init_args \<Rightarrow> string list \<Rightarrow> (exn + nat) \<times> 's pystate" where
  "construct rt st cls ia argv =
     (let (obj, st1) = ArgumentParser_new st cls
      in if \<not> isinstance st1 obj cls then (Inr obj, st1)
         else case heap st1 obj of
                None \<Rightarrow> (Inr obj, st1)
              | Some self \<Rightarrow>
                  (case ArgumentParser_init rt (class_accessors st1 (inst_class self)) ia argv self of
                     (Some e, self') \<Rightarrow> (Inl e, st1\<lparr>heap := (heap st1)(obj \<mapsto> self')\<rparr>)
                   | (None, self') \<Rightarrow> (Inr obj, st1\<lparr>heap := (heap st1)(obj \<mapsto> self')\<rparr>)))"

text \<open>Reading \<open>obj.arguments\<close>, reading a declared property of an object, and
  \<open>obj.parse_args(parameter)\<close>.\<close>

definition obj_arguments :: "'s pystate \<Rightarrow> nat \<Rightarrow> exn + namespace" where
  "obj_arguments st obj =
     (case heap st obj of
        None \<Rightarrow> Inl (NameError ''obj'')
      | Some self \<Rightarrow> read_arguments self)"

definition obj_property :: "'s pystate \<Rightarrow> nat \<Rightarrow> string \<Rightarrow> 's \<Rightarrow> (exn + pyval) \<times> 's" where
  "obj_property st obj name s =
     (case heap st obj of
        None \<Rightarrow> (Inl (NameError ''obj''), s)
      | Some self \<Rightarrow>
          (case class_getattr st (inst_class self) name of
             Some (ArgumentProperty acc) \<Rightarrow> call_wrapper acc self s
           | _ \<Rightarrow> (Inl (AttributeError name), s)))"

definition obj_parse_args :: "runtime \<Rightarrow> 's pystate \<Rightarrow> nat \<Rightarrow> string \<Rightarrow> exn option \<times> 's pystate" where
  "obj_parse_args rt st obj parameter =
     (case heap st obj of
        None \<Rightarrow> (Some (NameError ''obj''), st)
      | Some self \<Rightarrow>
          (case parse_args rt self parameter of
             (r, self') \<Rightarrow> (r, st\<lparr>heap := (heap st)(obj \<mapsto> self')\<rparr>)))"

section \<open>The runtime conversions and the classes of the test suite\<close>

text \<open>
  \<open>int(s)\<close> for a plain decimal literal (an optional sign and ASCII digits, within
  the digit limit of the interpreter), \<open>str(s)\<close> and \<open>bool(s)\<close>. Every other call of
  a type on a string, and \<open>==\<close>, stay parameters.
\<close>

definition digit_value :: "char \<Rightarrow> int" where
  "digit_value c =
     (if c = CHR ''1'' then 1 else if c = CHR ''2'' then 2 else if c = CHR ''3'' then 3
      else if c = CHR ''4'' then 4 else if c = CHR ''5'' then 5 else if c = CHR ''6'' then 6
      else if c = CHR ''7'' then 7 else if c = CHR ''8'' then 8 else if c = CHR ''9'' then 9
      else 0)"

definition decimal :: "string \<Rightarrow> int" where
  "decimal ds = foldl (\<lambda>n c. 10 * n + digit_value c) 0 ds"

definition plain_decimal :: "string \<Rightarrow> bool" where
  "plain_decimal ds = (ds \<noteq> [] \<and> list_all is_digit ds \<and> length ds \<le> 4300)"

definition py_int :: "(pytype \<Rightarrow> string \<Rightarrow> pyval option) \<Rightarrow> string \<Rightarrow> pyval option" where
  "py_int other s =
     (case s of
        c # ds \<Rightarrow>
          if c = CHR ''-'' \<and> plain_decimal ds then Some (VInt (- decimal ds))
          else if c = CHR ''+'' \<and> plain_decimal ds then Some (VInt (decimal ds))
          else if plain_decimal s then Some (VInt (decimal s))
          else other TInt s
      | [] \<Rightarrow> other TInt s)"

definition std_runtime ::
  "(pytype \<Rightarrow> string \<Rightarrow> pyval option) \<Rightarrow> (pyval \<Rightarrow> pyval \<Rightarrow> bool) \<Rightarrow> runtime" where
  "std_runtime other eq =
     \<lparr>call_type = (\<lambda>t s. case t of
                            TInt \<Rightarrow> py_int other s
                          | TStr \<Rightarrow> Some (VStr s)
                          | TBool \<Rightarrow> Some (VBool (s \<noteq> []))
                          | _ \<Rightarrow> other t s),
      py_eq = eq\<rparr>"

text \<open>\<open>str.split(sep)\<close> for a separator of one character.\<close>

fun split_on :: "char \<Rightarrow> string \<Rightarrow> string \<Rightarrow> string list" where
  "split_on sep [] w = [w]"
| "split_on sep (c # cs) w =
     (if c = sep then w # split_on sep cs [] else split_on sep cs (w @ [c]))"

text \<open>
  The getters of the class \<open>Argument\<close> of \<open>tests/test_argparser.py\<close>. A body that is
  \<open>...\<close> returns \<open>None\<close>. A getter called without a value that its signature
  requires, or with one it does not take, raises \<open>TypeError\<close>.
\<close>

definition missing_argument :: exn where
  "missing_argument = TypeError ''missing 1 required positional argument: value''"

definition foo_getter :: "'s getter" where
  "foo_getter =
     \<lparr>g_name = ''foo'', g_doc = None, g_hint = Some TStr, g_param = Some NoDefault,
      g_body = (\<lambda>ns v s. (case v of None \<Rightarrow> Inl missing_argument | Some _ \<Rightarrow> Inr VNone, s))\<rparr>"

definition property_name_getter :: "'s getter" where
  "property_name_getter =
     \<lparr>g_name = ''property_name'', g_doc = None, g_hint = Some TStr,
      g_param = Some (Default (VStr [])),
      g_body = (\<lambda>ns v s. (Inr VNone, s))\<rparr>"

text \<open>\<open>value + 1\<close>.\<close>

definition plus_one :: "pyval \<Rightarrow> exn + pyval" where
  "plus_one v =
     (case v of
        VInt i \<Rightarrow> Inr (VInt (i + 1))
      | VBool b \<Rightarrow> Inr (VInt ((if b then 1 else 0) + 1))
      | _ \<Rightarrow> Inl (TypeError ''unsupported operand type(s) for +''))"

definition bar_getter :: "'s getter" where
  "bar_getter =
     \<lparr>g_name = ''bar'', g_doc = None, g_hint = Some TInt, g_param = Some (Default (VInt 0)),
      g_body = (\<lambda>ns v s. (plus_one (case v of None \<Rightarrow> VInt 0 | Some x \<Rightarrow> x), s))\<rparr>"

definition baz_body :: "pyval option \<Rightarrow> exn + pyval" where
  "baz_body v =
     (case v of
        None \<Rightarrow> Inl missing_argument
      | Some VNone \<Rightarrow> Inr (VList [])
      | Some (VStr x) \<Rightarrow> Inr (VList (map VStr (split_on (CHR ''/'') x [])))
      | Some _ \<Rightarrow> Inl (AttributeError ''split''))"

definition baz_getter :: "'s getter" where
  "baz_getter =
     \<lparr>g_name = ''baz'', g_doc = None, g_hint = Some (TUnion [TStr, TNoneType]),
      g_param = Some NoDefault,
      g_body = (\<lambda>ns v s. (baz_body v, s))\<rparr>"

definition const_getter :: "'s getter" where
  "const_getter =
     \<lparr>g_name = ''const'', g_doc = None, g_hint = None, g_param = None,
      g_body = (\<lambda>ns v s. (case v of
                              None \<Rightarrow> Inr (VInt 40)
                            | Some _ \<Rightarrow> Inl (TypeError ''takes 1 positional argument but 2 were given''),
                            s))\<rparr>"

definition nargs_getter :: "'s getter" where
  "nargs_getter =
     \<lparr>g_name = ''nargs'', g_doc = None, g_hint = Some (TList [TInt]), g_param = Some NoDefault,
      g_body = (\<lambda>ns v s. (case v of None \<Rightarrow> Inl missing_argument | Some _ \<Rightarrow> Inr VNone, s))\<rparr>"

definition boolean_getter :: "'s getter" where
  "boolean_getter =
     \<lparr>g_name = ''boolean'', g_doc = None, g_hint = Some TBool, g_param = Some NoDefault,
      g_body = (\<lambda>ns v s. (case v of None \<Rightarrow> Inl missing_argument | Some _ \<Rightarrow> Inr VNone, s))\<rparr>"

text \<open>\<open>if not self.baz: return -1\<close>, \<open>return value\<close>: \<open>self.baz\<close> is the property,
  that is the wrapper of \<open>baz\<close> on the namespace of \<open>self\<close>.\<close>

definition optional_getter :: "'s getter" where
  "optional_getter =
     \<lparr>g_name = ''optional'', g_doc = None, g_hint = Some TInt, g_param = Some (Default (VInt 3)),
      g_body = (\<lambda>ns v s.
        (case ns_getattr ns ''baz'' of
           Inl e \<Rightarrow> Inl e
         | Inr b \<Rightarrow>
             (case baz_body (Some b) of
                Inl e \<Rightarrow> Inl e
              | Inr r \<Rightarrow> if \<not> truthy r then Inr (VInt (- 1))
                         else Inr (case v of None \<Rightarrow> VInt 3 | Some x \<Rightarrow> x)), s))\<rparr>"

definition Argument_body :: "'s decl list" where
  "Argument_body =
     [Decl True Bare foo_getter,
      Decl True (WithOptions (no_options\<lparr>o_name := Some ''name''\<rparr>)) property_name_getter,
      Decl True (WithOptions (no_options\<lparr>o_aliases := Some (AliasStr ''b'')\<rparr>)) bar_getter,
      Decl True (WithOptions (no_options\<lparr>o_aliases := Some (AliasList [''z'', ''az''])\<rparr>))
        baz_getter,
      Decl True (WithOptions (no_options\<lparr>o_const := VBool True\<rparr>)) const_getter,
      Decl True (WithOptions (no_options\<lparr>o_nargs := Some (NInt 3), o_metavar := Some ''N''\<rparr>))
        nargs_getter,
      Decl True Bare boolean_getter,
      Decl True Bare optional_getter]"

text \<open>The module: \<open>class Argument(ArgumentParser)\<close> and
  \<open>class AdditionalArgument(Argument): ...\<close>.\<close>

definition test_module :: "'s pystate" where
  "test_module =
     snd (define_class (snd (define_class initial_state ''Argument'' ''ArgumentParser''
                               Argument_body))
            ''AdditionalArgument'' ''Argument'' [])"

definition lazy :: init_args where
  "lazy = \<lparr>ia_prog = None, ia_usage = None, ia_description = None, ia_epilog = None,
           ia_lazy_parsing = True\<rparr>"

definition eager :: init_args where
  "eager = \<lparr>ia_prog = None, ia_usage = None, ia_description = None, ia_epilog = None,
            ia_lazy_parsing = False\<rparr>"

text \<open>\<open>setUp\<close> of the test case, on the module as loaded, and the state after one
  \<open>self.args.parse_args(parameter)\<close>.\<close>

definition test_object :: "runtime \<Rightarrow> (exn + nat) \<times> 's pystate" where
  "test_object rt = construct rt test_module ''AdditionalArgument'' lazy []"

definition after_parse :: "runtime \<Rightarrow> string \<Rightarrow> 's pystate" where
  "after_parse rt parameter = snd (obj_parse_args rt (snd (test_object rt)) 0 parameter)"

text \<open>A runtime in which \<open>int\<close>, \<open>str\<close> and \<open>bool\<close> convert as above, every other
  type refuses every string, and \<open>==\<close> is the identity of values; and the instance
  of the test case as \<open>__init__\<close> leaves it.\<close>

definition plain_runtime :: runtime where
  "plain_runtime = std_runtime (\<lambda>t s. None) (=)"

definition test_instance :: "runtime \<Rightarrow> init_args \<Rightarrow> string list \<Rightarrow> pyobject" where
  "test_instance rt ia argv =
     snd (ArgumentParser_init rt
            (class_accessors (test_module :: unit pystate) ''AdditionalArgument'') ia argv
            \<lparr>inst_class = ''AdditionalArgument'', inst_arguments = None, inst_parser = None\<rparr>)"

definition test_accessor :: "string \<Rightarrow> unit accessor option" where
  "test_accessor name =
     (case class_getattr test_module ''AdditionalArgument'' name of
        Some (ArgumentProperty acc) \<Rightarrow> Some acc
      | _ \<Rightarrow> None)"

text \<open>
  A module with one constant flag whose getter counts its calls in the state
  (\<open>def verbose(self): global calls; calls += 1; return 40\<close>), and one with a
  constant flag whose name starts with an underscore.
\<close>

definition counting_getter :: "nat getter" where
  "counting_getter =
     \<lparr>g_name = ''verbose'', g_doc = None, g_hint = None, g_param = None,
      g_body = (\<lambda>ns v calls. (Inr (VInt 40), calls + 1))\<rparr>"

definition counting_module :: "nat pystate" where
  "counting_module =
     snd (define_class initial_state ''Counting'' ''ArgumentParser''
            [Decl True (WithOptions (no_options\<lparr>o_const := VBool True\<rparr>)) counting_getter])"

definition underscore_module :: "nat pystate" where
  "underscore_module =
     snd (define_class initial_state ''Underscore'' ''ArgumentParser''
            [Decl True (WithOptions (no_options\<lparr>o_const := VBool True\<rparr>))
               (counting_getter\<lparr>g_name := ''_quiet''\<rparr>)])"

text \<open>An object constructed with \<open>lazy_parsing=True\<close> as object 0 of a module, after
  one \<open>parse_args(parameter)\<close>.\<close>

definition parsed_object :: "runtime \<Rightarrow> 's pystate \<Rightarrow> string \<Rightarrow> string \<Rightarrow> 's pystate" where
  "parsed_object rt module cls parameter =
     snd (obj_parse_args rt (snd (construct rt module cls lazy [])) 0 parameter)"

text \<open>The accessors that the decorators of a class body return, in the order of
  the text, up to the first decoration that raises.\<close>

fun body_accessors :: "nat \<Rightarrow> 's decl list \<Rightarrow> 's accessor list" where
  "body_accessors n [] = []"
| "body_accessors n (Decl is_property dec g # ds) =
     (case argument dec n g of
        Inl e \<Rightarrow> []
      | Inr (acc, n') \<Rightarrow> acc # body_accessors n' ds)"

text \<open>The option strings \<open>__init__\<close> passes to \<open>add_argument\<close> for a collected
  declaration.\<close>

definition flags_of :: "nat \<times> string \<times> string list \<times> kwds \<Rightarrow> string list" where
  "flags_of r = (case r of (number, argument_name, args, kw) \<Rightarrow> (''--'' @ argument_name) # args)"

subsection \<open>The effect of the parsing loop\<close>

text \<open>
  The loop never reads the state it changes: it adds to the namespace, to the seen
  actions and to the extras. \<open>combine st eff\<close> is the state \<open>st\<close> after the changes
  \<open>eff\<close>, which are what the loop does to the empty state \<open>pstate0\<close>.
\<close>

definition pstate0 :: pstate where
  "pstate0 = \<lparr>ps_namespace = Map.empty, ps_seen_actions = {}, ps_extras = []\<rparr>"

definition combine :: "pstate \<Rightarrow> pstate \<Rightarrow> pstate" where
  "combine st eff =
     \<lparr>ps_namespace = ps_namespace st ++ ps_namespace eff,
      ps_seen_actions = ps_seen_actions st \<union> ps_seen_actions eff,
      ps_extras = ps_extras st @ ps_extras eff\<rparr>"

text \<open>An argument string that the first loop marks \<open>A\<close>: not \<open>--\<close>, and not a flag
  for \<open>_parse_optional\<close>.\<close>

definition is_argument :: "parser \<Rightarrow> string \<Rightarrow> bool" where
  "is_argument P s = (s \<noteq> ''--'' \<and> parse_optional P s = Inr None)"

text \<open>The actions that the engine takes on a list of argument strings (none when
  it stops with an error).\<close>

definition actions_taken :: "runtime \<Rightarrow> parser \<Rightarrow> string list \<Rightarrow> action set" where
  "actions_taken rt P arg_strings =
     (case classify P arg_strings of
        Inl e \<Rightarrow> {}
      | Inr cs \<Rightarrow>
          (case parse_loop rt P cs pstate0 of
             Inl e \<Rightarrow> {}
           | Inr st \<Rightarrow> ps_seen_actions st))"

text \<open>Every entry the loop makes in the namespace is the destination of an action
  it has seen.\<close>

definition written_by_seen :: "pstate \<Rightarrow> bool" where
  "written_by_seen st =
     (\<forall>d v. ps_namespace st d = Some v \<longrightarrow> (\<exists>b \<in> ps_seen_actions st. a_dest b = Some d))"

text \<open>The actions a parser can find by an option string, and the patterns whose
  flags are among them.\<close>

definition known_actions :: "parser \<Rightarrow> action set" where
  "known_actions P = snd ` set (p_option_string_actions P)"

definition known_pattern :: "parser \<Rightarrow> string \<times> pattern \<Rightarrow> bool" where
  "known_pattern P c =
     (case snd c of
        PO (Some b, os, sep, ea) \<Rightarrow> b \<in> known_actions P
      | _ \<Rightarrow> True)"

subsection \<open>List arguments\<close>

text \<open>What a decorator was given as \<open>nargs\<close> and as \<open>name\<close>, and the option strings
  \<open>__init__\<close> registers for an accessor.\<close>

definition declared_nargs :: "decorator \<Rightarrow> nargs option" where
  "declared_nargs dec = (case dec of Bare \<Rightarrow> None | WithOptions opts \<Rightarrow> o_nargs opts)"

definition declared_name :: "decorator \<Rightarrow> string option" where
  "declared_name dec = (case dec of Bare \<Rightarrow> None | WithOptions opts \<Rightarrow> o_name opts)"

definition accessor_flags :: "'s accessor \<Rightarrow> string list" where
  "accessor_flags w = flags_of (registration (w_info w))"

text \<open>
  Two list arguments that return their value,
  \<open>def numbers(self, value: List[int]): return value\<close> and
  \<open>def steps(self, value: List[int] = []): return value\<close>; a class that declares
  the first; and for either getter the accessor \<open>@argument\<close> makes of it, and the
  instance of a class with this one property as \<open>__init__\<close> leaves it with
  \<open>lazy_parsing=True\<close>.
\<close>

definition numbers_getter :: "'s getter" where
  "numbers_getter =
     \<lparr>g_name = ''numbers'', g_doc = None, g_hint = Some (TList [TInt]),
      g_param = Some NoDefault,
      g_body = (\<lambda>ns v s. (case v of None \<Rightarrow> Inl missing_argument | Some x \<Rightarrow> Inr x, s))\<rparr>"

definition steps_getter :: "'s getter" where
  "steps_getter =
     \<lparr>g_name = ''steps'', g_doc = None, g_hint = Some (TList [TInt]),
      g_param = Some (Default (VList [])),
      g_body = (\<lambda>ns v s. (case v of None \<Rightarrow> Inl missing_argument | Some x \<Rightarrow> Inr x, s))\<rparr>"

definition numbers_module :: "'s pystate" where
  "numbers_module =
     snd (define_class initial_state ''Numbers'' ''ArgumentParser''
            [Decl True Bare numbers_getter])"

definition list_accessor :: "'s getter \<Rightarrow> 's accessor" where
  "list_accessor g = fst (projr (argument Bare 0 g))"

definition list_instance :: "'s getter \<Rightarrow> pyobject" where
  "list_instance g =
     snd (ArgumentParser_init plain_runtime [list_accessor g] lazy []
            \<lparr>inst_class = ''Numbers'', inst_arguments = None, inst_parser = None\<rparr>)"

section \<open>Properties of the declaration compiler\<close>

lemma generate_number:
  "generate_argument_getter n g args name kw = Inr (acc, n') \<Longrightarrow>
     i_number (w_info acc) = n \<and> n' = n + 1"
  by (auto simp: generate_argument_getter_def Let_def split: if_splits sum.splits prod.splits)

lemma generate_missing_value_parameter:
  "k_const kw = None \<or> (\<exists>c. k_const kw = Some c \<and> \<not> truthy c) \<Longrightarrow> g_hint g = None \<Longrightarrow>
     generate_argument_getter n g args name kw =
       Inl (ValueError ''An argument function should have value parameter.'')"
  by (auto simp: generate_argument_getter_def Let_def split: option.splits)

lemma infer_shape_list_many:
  "length ts > 1 \<Longrightarrow>
     infer_shape kw (Some (TList ts)) =
       Inl (TypeError (''You should set the return type of argument function '' @
                       ''to list that contains only one type.''))"
  by (simp add: infer_shape_def)

lemma generate_list_many:
  "g_hint g = Some (TList ts) \<Longrightarrow> length ts > 1 \<Longrightarrow>
     generate_argument_getter n g args name kw =
       Inl (TypeError (''You should set the return type of argument function '' @
                       ''to list that contains only one type.''))"
  by (simp add: generate_argument_getter_def Let_def infer_shape_list_many
           split: option.splits)

lemma infer_shape_union_length:
  "length ts \<noteq> 2 \<Longrightarrow>
     infer_shape kw (Some (TUnion ts)) = Inl (TypeError ''Union type is not allowed.'')"
  by (simp add: infer_shape_def)

lemma infer_shape_union_class:
  "t2 \<in> {TInt, TFloat, TStr, TBool} \<Longrightarrow>
     infer_shape kw (Some (TUnion [t1, t2])) = Inl (TypeError ''Union type is not allowed.'')"
  by (auto simp: infer_shape_def)

text \<open>
  C4. The claim: a union that is not exactly of the shape \<open>T or None\<close> raises
  \<open>TypeError("Union type is not allowed.")\<close> when the class is defined. The check of
  the code is \<open>isinstance(None, type_args[1])\<close>, which \<open>object\<close> passes as well as
  \<open>NoneType\<close>: a getter annotated \<open>value: Union[int, object]\<close> is compiled without
  any error, as an optional \<open>int\<close>. (A union of another length, or with a second
  member \<open>int\<close>, \<open>float\<close>, \<open>str\<close> or \<open>bool\<close>, does raise that error, and so do the
  missing value parameter and the list of several types: the lemmas above.)
\<close>

theorem union_with_object_is_accepted:
  "generate_argument_getter 0
     \<lparr>g_name = ''x'', g_doc = None, g_hint = Some (TUnion [TInt, TObject]),
      g_param = Some NoDefault, g_body = (\<lambda>ns v s. (Inr VNone, s :: unit))\<rparr>
     [] None empty_kwds
   = Inr (\<lparr>w_kind = plain_wrapper, w_argument_name = ''x'',
           w_getter = \<lparr>g_name = ''x'', g_doc = None, g_hint = Some (TUnion [TInt, TObject]),
                        g_param = Some NoDefault, g_body = (\<lambda>ns v s. (Inr VNone, s))\<rparr>,
           w_info = \<lparr>i_getter_name = ''x'', i_name = None, i_number = 0, i_args = [],
                     i_kwds = empty_kwds\<lparr>k_required := Some False, k_type := Some TInt\<rparr>\<rparr>\<rparr>,
          1)"
  by (simp add: generate_argument_getter_def infer_shape_def apply_signature_def
                empty_kwds_def Let_def)

text \<open>
  C6 (as stated, refuted). With \<open>const=True\<close> the inference chain still runs on a
  declared value type: \<open>value: int = 5\<close> adds \<open>type=int\<close> and \<open>default=5\<close> to the
  keywords (which \<open>store_const\<close> then refuses at registration), and \<open>value: bool\<close>
  replaces the action by \<open>store_true\<close>; the same accessor without a value type gets
  neither.
\<close>

theorem const_declared_type_counterexample:
  "compiled_kwds (argument (WithOptions (no_options\<lparr>o_const := VBool True\<rparr>)) 0
      \<lparr>g_name = ''c'', g_doc = None, g_hint = Some TInt, g_param = Some (Default (VInt 5)),
       g_body = (\<lambda>ns v s. (Inr (VInt 40), s :: unit))\<rparr>)
     = Inr (empty_kwds\<lparr>k_required := Some False, k_action := Some store_const,
              k_const := Some (VBool True), k_default := Some (VInt 5), k_type := Some TInt\<rparr>)
   \<and> compiled_kwds (argument (WithOptions (no_options\<lparr>o_const := VBool True\<rparr>)) 0
      \<lparr>g_name = ''c'', g_doc = None, g_hint = None, g_param = None,
       g_body = (\<lambda>ns v s. (Inr (VInt 40), s :: unit))\<rparr>)
     = Inr (empty_kwds\<lparr>k_required := Some False, k_action := Some store_const,
              k_const := Some (VBool True)\<rparr>)
   \<and> compiled_kwds (argument (WithOptions (no_options\<lparr>o_const := VBool True\<rparr>)) 0
      \<lparr>g_name = ''c'', g_doc = None, g_hint = Some TBool, g_param = Some NoDefault,
       g_body = (\<lambda>ns v s. (Inr (VInt 40), s :: unit))\<rparr>)
     = Inr (empty_kwds\<lparr>k_required := Some False, k_action := Some store_true,
              k_const := Some (VBool True)\<rparr>)
   \<and> add_argument (new_parser None None None None) [''--c'']
        (empty_kwds\<lparr>k_required := Some False, k_action := Some store_const,
              k_const := Some (VBool True), k_default := Some (VInt 5), k_type := Some TInt\<rparr>)
     = Inl unexpected_keyword"
  by (simp add: compiled_kwds_def argument_def generate_argument_getter_def infer_shape_def
        apply_signature_def option_kwds_def no_options_def empty_kwds_def alias_flags_def
        add_argument_def get_optional_kwargs_def infer_dest_def make_action_def
        is_long_option_def replace_char_def Let_def)

text \<open>
  C6 (amended). When \<open>const\<close> is truthy and the getter declares no value type, the
  keywords are those of the decorator with \<open>required=False\<close> and
  \<open>action="store_const"\<close> (and the docstring as help), whatever the signature of the
  getter says about a default; and, no \<open>nargs\<close> or \<open>choices\<close> having been given, the
  action registered for them takes no value, is not required, has no coercion type
  and the default \<open>None\<close>.
\<close>

theorem const_without_value_type:
  assumes "truthy (o_const opts)" and "g_hint g = None"
  shows "argument (WithOptions opts) n g =
           Inr (\<lparr>w_kind = const_wrapper, w_argument_name = g_name g, w_getter = g,
                 w_info = \<lparr>i_getter_name = g_name g, i_name = o_name opts, i_number = n,
                           i_args = alias_flags (o_aliases opts),
                           i_kwds = (option_kwds opts)
                             \<lparr>k_required := Some False,
                              k_help := (case g_doc g of None \<Rightarrow> None | Some d \<Rightarrow> Some d),
                              k_action := Some store_const\<rparr>\<rparr>\<rparr>, n + 1)
         \<and> (if o_nargs opts = None \<and> o_choices opts = None then
              make_action fl d ((option_kwds opts)
                  \<lparr>k_required := Some False,
                   k_help := (case g_doc g of None \<Rightarrow> None | Some d \<Rightarrow> Some d),
                   k_action := Some store_const\<rparr>) =
              Inr \<lparr>a_class = StoreConstAction, a_option_strings = fl, a_dest = Some d,
                   a_nargs = Some (NInt 0), a_const = o_const opts, a_default = Value VNone,
                   a_type = None, a_choices = None, a_required = False,
                   a_help = g_doc g, a_metavar = None\<rparr>
            else
              make_action fl d ((option_kwds opts)
                  \<lparr>k_required := Some False,
                   k_help := (case g_doc g of None \<Rightarrow> None | Some d \<Rightarrow> Some d),
                   k_action := Some store_const\<rparr>) = Inl unexpected_keyword)"
proof -
  have c: "k_const (option_kwds opts) = Some (o_const opts)"
    using assms(1)
    by (simp add: option_kwds_def empty_kwds_def Let_def split: option.splits)
  have h: "k_help (option_kwds opts) = None" "k_type (option_kwds opts) = None"
          "k_default (option_kwds opts) = None"
          "k_nargs (option_kwds opts) = o_nargs opts"
          "k_choices (option_kwds opts) = o_choices opts"
    by (simp_all add: option_kwds_def empty_kwds_def Let_def split: option.splits)
  have gen: "argument (WithOptions opts) n g =
           Inr (\<lparr>w_kind = const_wrapper, w_argument_name = g_name g, w_getter = g,
                 w_info = \<lparr>i_getter_name = g_name g, i_name = o_name opts, i_number = n,
                           i_args = alias_flags (o_aliases opts),
                           i_kwds = (option_kwds opts)
                             \<lparr>k_required := Some False,
                              k_help := (case g_doc g of None \<Rightarrow> None | Some d \<Rightarrow> Some d),
                              k_action := Some store_const\<rparr>\<rparr>\<rparr>, n + 1)"
    using assms c h
    by (cases "g_doc g")
       (simp_all add: argument_def generate_argument_getter_def infer_shape_def
          apply_signature_def Let_def)
  have reg: "(if o_nargs opts = None \<and> o_choices opts = None then
              make_action fl d ((option_kwds opts)
                  \<lparr>k_required := Some False,
                   k_help := (case g_doc g of None \<Rightarrow> None | Some d \<Rightarrow> Some d),
                   k_action := Some store_const\<rparr>) =
              Inr \<lparr>a_class = StoreConstAction, a_option_strings = fl, a_dest = Some d,
                   a_nargs = Some (NInt 0), a_const = o_const opts, a_default = Value VNone,
                   a_type = None, a_choices = None, a_required = False,
                   a_help = g_doc g, a_metavar = None\<rparr>
            else
              make_action fl d ((option_kwds opts)
                  \<lparr>k_required := Some False,
                   k_help := (case g_doc g of None \<Rightarrow> None | Some d \<Rightarrow> Some d),
                   k_action := Some store_const\<rparr>) = Inl unexpected_keyword)"
    using c h by (cases "g_doc g") (auto simp: make_action_def Let_def)
  from gen reg show ?thesis by blast
qed

theorem const_without_value_type_witness:
  "truthy (o_const (no_options\<lparr>o_const := VBool True\<rparr>))
   \<and> compiled_kwds (argument (WithOptions (no_options\<lparr>o_const := VBool True\<rparr>)) 3
        \<lparr>g_name = ''const'', g_doc = None, g_hint = None, g_param = Some (Default (VInt 5)),
         g_body = (\<lambda>ns v s. (Inr (VInt 40), s :: unit))\<rparr>)
      = Inr (empty_kwds\<lparr>k_required := Some False, k_action := Some store_const,
               k_const := Some (VBool True)\<rparr>)
   \<and> make_action [''--const''] ''const''
        (empty_kwds\<lparr>k_required := Some False, k_action := Some store_const,
               k_const := Some (VBool True)\<rparr>)
      = Inr \<lparr>a_class = StoreConstAction, a_option_strings = [''--const''],
             a_dest = Some ''const'', a_nargs = Some (NInt 0), a_const = VBool True,
             a_default = Value VNone, a_type = None, a_choices = None, a_required = False,
             a_help = None, a_metavar = None\<rparr>"
  using const_without_value_type [of "no_options\<lparr>o_const := VBool True\<rparr>"
      "\<lparr>g_name = ''const'', g_doc = None, g_hint = None, g_param = Some (Default (VInt 5)),
         g_body = (\<lambda>ns v s. (Inr (VInt 40), s :: unit))\<rparr>" 3 "[''--const'']" "''const''"]
  by (simp add: compiled_kwds_def no_options_def option_kwds_def empty_kwds_def Let_def)

section \<open>The scenario of the test suite\<close>

text \<open>
  C2. The scenario of \<open>tests/test_argparser.py\<close>, evaluated on the code:
  \<open>bar\<close>, \<open>baz\<close> and the exit on the empty string are as the claim says, but
  \<open>foo\<close> is \<open>None\<close>, not \<open>"foo"\<close>. The body of the getter \<open>foo\<close> is \<open>...\<close>, which
  returns \<open>None\<close>, and \<open>_wrapper\<close> returns what the getter returns.
\<close>

theorem test_scenario_foo_is_None:
  "fst (test_object (std_runtime other eq) :: (exn + nat) \<times> 's pystate) = Inr 0
   \<and> fst (obj_property (after_parse (std_runtime other eq)
             ''--foo foo --nargs 1 2 3 --bar 3 --baz foo/bar'') 0 ''foo'' (s :: 's)) = Inr VNone
   \<and> fst (obj_property (after_parse (std_runtime other eq)
             ''--foo foo --nargs 1 2 3 --bar 3 --baz foo/bar'') 0 ''bar'' s) = Inr (VInt 4)
   \<and> fst (obj_property (after_parse (std_runtime other eq)
             ''--foo foo --nargs 1 2 3 --bar 3 --baz foo/bar'') 0 ''baz'' s)
       = Inr (VList [VStr ''foo'', VStr ''bar''])
   \<and> fst (obj_property (after_parse (std_runtime other eq)
             ''--foo foo --nargs 1 2 3'') 0 ''bar'' s) = Inr (VInt 1)
   \<and> fst (obj_property (after_parse (std_runtime other eq)
             ''--foo foo --nargs 1 2 3'') 0 ''baz'' s) = Inr (VList [])
   \<and> fst (obj_parse_args (std_runtime other eq)
             (snd (test_object (std_runtime other eq) :: (exn + nat) \<times> 's pystate)) 0 [])
       = Some (SystemExit 2)"
  unfolding after_parse_def test_object_def by code_simp

section \<open>Construction\<close>

text \<open>
  C5. \<open>__new__\<close> reads \<open>cls.__object__\<close>, which a subclass inherits: once the base
  class \<open>Argument\<close> has been constructed, constructing its subclass
  \<open>AdditionalArgument\<close> returns the object of the base class, which is not an
  instance of the subclass (and \<open>__init__\<close> is not run on it).
\<close>

theorem subclass_gets_object_of_base:
  "fst (construct rt (test_module :: 's pystate) ''Argument'' lazy []) = Inr 0
   \<and> fst (construct rt (snd (construct rt (test_module :: 's pystate) ''Argument'' lazy []))
            ''AdditionalArgument'' lazy []) = Inr 0
   \<and> map_option inst_class
         (heap (snd (construct rt (snd (construct rt (test_module :: 's pystate) ''Argument'' lazy []))
                  ''AdditionalArgument'' lazy [])) 0) = Some ''Argument''
   \<and> \<not> isinstance (snd (construct rt (snd (construct rt (test_module :: 's pystate) ''Argument'' lazy []))
                  ''AdditionalArgument'' lazy [])) 0 ''AdditionalArgument''"
  by code_simp

section \<open>Parsing again, and reading properties\<close>

text \<open>
  C10. \<open>parse_args\<close> that ends with an exception (the engine rejecting the
  parameter string with \<open>SystemExit\<close>, in particular) leaves the instance as it
  was: the namespace of the last successful parse stays, and with it what
  \<open>arguments\<close> and every property wrapper return.
\<close>

theorem parse_args_failure_keeps_namespace:
  assumes "fst (parse_args rt self parameter) = Some e"
  shows "snd (parse_args rt self parameter) = self
         \<and> read_arguments (snd (parse_args rt self parameter)) = read_arguments self
         \<and> call_wrapper acc (snd (parse_args rt self parameter)) s = call_wrapper acc self s"
proof -
  have "snd (parse_args rt self parameter) = self"
    using assms by (auto simp: parse_args_def split: option.splits sum.splits)
  then show ?thesis by simp
qed

lemma test_instance_rejects_empty:
  "fst (parse_args plain_runtime
          (snd (parse_args plain_runtime (test_instance plain_runtime lazy [])
                  ''--foo foo --nargs 1 2 3 --bar 3'')) []) = Some (SystemExit 2)"
  by code_simp

lemma test_instance_bar:
  "map_option (\<lambda>acc. call_wrapper acc
          (snd (parse_args plain_runtime (test_instance plain_runtime lazy [])
                  ''--foo foo --nargs 1 2 3 --bar 3'')) ()) (test_accessor ''bar'')
   = Some (Inr (VInt 4), ())"
  by code_simp

theorem parse_args_failure_keeps_namespace_witness:
  "fst (parse_args plain_runtime
          (snd (parse_args plain_runtime (test_instance plain_runtime lazy [])
                  ''--foo foo --nargs 1 2 3 --bar 3'')) []) = Some (SystemExit 2)
   \<and> map_option (\<lambda>acc. call_wrapper acc
         (snd (parse_args plain_runtime
            (snd (parse_args plain_runtime (test_instance plain_runtime lazy [])
                    ''--foo foo --nargs 1 2 3 --bar 3'')) [])) ()) (test_accessor ''bar'')
     = Some (Inr (VInt 4), ())"
  using parse_args_failure_keeps_namespace [OF test_instance_rejects_empty, THEN conjunct1]
        test_instance_rejects_empty test_instance_bar
  by simp

text \<open>
  C9 (as stated, refuted). Construction returns the cached object of the class and
  runs \<open>__init__\<close> on it again. After \<open>Argument()\<close> has parsed the command line
  \<open>--foo x --nargs 1 2 3\<close>, the call \<open>Argument(lazy_parsing=True)\<close> returns the same
  object, which still holds that namespace: with no \<open>parse_args\<close> call at all,
  \<open>arguments\<close> and the property \<open>bar\<close> are read without \<open>AttributeError\<close>.
\<close>

theorem lazy_construction_of_cached_object_counterexample:
  "fst (construct plain_runtime (test_module :: unit pystate) ''Argument'' eager
          [''--foo'', ''x'', ''--nargs'', ''1'', ''2'', ''3'']) = Inr 0
   \<and> fst (construct plain_runtime
            (snd (construct plain_runtime (test_module :: unit pystate) ''Argument'' eager
                    [''--foo'', ''x'', ''--nargs'', ''1'', ''2'', ''3'']))
            ''Argument'' lazy []) = Inr 0
   \<and> map_sum id (\<lambda>ns. ns ''foo'')
         (obj_arguments
            (snd (construct plain_runtime
               (snd (construct plain_runtime (test_module :: unit pystate) ''Argument'' eager
                       [''--foo'', ''x'', ''--nargs'', ''1'', ''2'', ''3'']))
               ''Argument'' lazy [])) 0) = Inr (Some (VStr ''x''))
   \<and> obj_property
         (snd (construct plain_runtime
            (snd (construct plain_runtime (test_module :: unit pystate) ''Argument'' eager
                    [''--foo'', ''x'', ''--nargs'', ''1'', ''2'', ''3'']))
            ''Argument'' lazy [])) 0 ''bar'' () = (Inr (VInt 1), ())"
  by code_simp

text \<open>
  C9 (amended). \<open>__init__\<close> with \<open>lazy_parsing=True\<close> stores no namespace and
  leaves the one the instance holds; an instance that holds none raises
  \<open>AttributeError\<close> on \<open>arguments\<close> and in every property wrapper, before the
  getter is called; and the first construction of a class (no object cached for it
  or a base), when lazy, returns an object that holds none.
\<close>

lemma init_lazy_keeps_arguments:
  "ia_lazy_parsing ia \<Longrightarrow>
     inst_arguments (snd (ArgumentParser_init rt accs ia argv self)) = inst_arguments self"
  by (simp add: ArgumentParser_init_def split: sum.splits)

lemma unparsed_reads_raise:
  "inst_arguments self = None \<Longrightarrow>
     read_arguments self = Inl (AttributeError ''_ArgumentParser__arguments'')
     \<and> call_wrapper acc self s = (Inl (AttributeError ''_ArgumentParser__arguments''), s)"
  by (simp add: read_arguments_def call_wrapper_def)

lemma mro_head: "cls \<in> set (mro st cls)"
  by (simp add: mro_def split: option.splits)

lemma first_construction_lazy:
  assumes "lookup_object st (mro st cls) = None" and "ia_lazy_parsing ia"
      and "construct rt st cls ia argv = (Inr obj, st')"
  shows "\<exists>self. heap st' obj = Some self \<and> inst_arguments self = None"
proof -
  define self0 where "self0 = \<lparr>inst_class = cls, inst_arguments = None, inst_parser = None\<rparr>"
  define st1 where "st1 = snd (ArgumentParser_new st cls)"
  have new: "ArgumentParser_new st cls = (next_id st, st1)"
    using assms(1) by (simp add: st1_def ArgumentParser_new_def Let_def)
  have h1: "heap st1 (next_id st) = Some self0"
    using assms(1) by (simp add: st1_def self0_def ArgumentParser_new_def Let_def)
  have inst: "isinstance st1 (next_id st) cls"
    using h1 mro_head by (simp add: isinstance_def self0_def)
  obtain r self' where init:
    "ArgumentParser_init rt (class_accessors st1 cls) ia argv self0 = (r, self')"
    by (cases "ArgumentParser_init rt (class_accessors st1 cls) ia argv self0") auto
  have args: "inst_arguments self' = None"
    using init_lazy_keeps_arguments [OF assms(2), of rt "class_accessors st1 cls" argv self0] init
    by (simp add: self0_def)
  have cls0: "inst_class self0 = cls" by (simp add: self0_def)
  have "construct rt st cls ia argv =
          (case r of Some e \<Rightarrow> (Inl e, st1\<lparr>heap := (heap st1)(next_id st \<mapsto> self')\<rparr>)
                   | None \<Rightarrow> (Inr (next_id st), st1\<lparr>heap := (heap st1)(next_id st \<mapsto> self')\<rparr>))"
    using inst h1 init cls0 by (simp add: construct_def new split: option.splits)
  with assms(3) have "obj = next_id st" "st' = st1\<lparr>heap := (heap st1)(next_id st \<mapsto> self')\<rparr>"
    by (auto split: option.splits)
  with args show ?thesis by simp
qed

theorem lazy_unparsed_reads_raise:
  assumes "ia_lazy_parsing ia"
      and "lookup_object st (mro st cls) = None"
      and "fst (construct rt st cls ia argv) = Inr obj"
  shows "inst_arguments (snd (ArgumentParser_init rt accs ia argv self)) = inst_arguments self
    \<and> (if inst_arguments self = None then
          read_arguments (snd (ArgumentParser_init rt accs ia argv self))
            = Inl (AttributeError ''_ArgumentParser__arguments'')
          \<and> call_wrapper acc (snd (ArgumentParser_init rt accs ia argv self)) s
            = (Inl (AttributeError ''_ArgumentParser__arguments''), s)
        else
          read_arguments (snd (ArgumentParser_init rt accs ia argv self)) = read_arguments self)
    \<and> obj_arguments (snd (construct rt st cls ia argv)) obj
          = Inl (AttributeError ''_ArgumentParser__arguments'')
    \<and> snd (obj_property (snd (construct rt st cls ia argv)) obj name (s :: 's)) = s
    \<and> isl (fst (obj_property (snd (construct rt st cls ia argv)) obj name s))"
proof -
  let ?self' = "snd (ArgumentParser_init rt accs ia argv self)"
  have a: "inst_arguments ?self' = inst_arguments self"
    by (rule init_lazy_keeps_arguments [OF assms(1)])
  have b: "inst_arguments self = None \<Longrightarrow>
          read_arguments ?self' = Inl (AttributeError ''_ArgumentParser__arguments'')
          \<and> call_wrapper acc ?self' s = (Inl (AttributeError ''_ArgumentParser__arguments''), s)"
    using a by (simp add: read_arguments_def call_wrapper_def)
  have c: "inst_arguments self \<noteq> None \<Longrightarrow> read_arguments ?self' = read_arguments self"
    using a by (simp add: read_arguments_def)
  have d: "obj_arguments (snd (construct rt st cls ia argv)) obj
            = Inl (AttributeError ''_ArgumentParser__arguments'')
          \<and> snd (obj_property (snd (construct rt st cls ia argv)) obj name s) = s
          \<and> isl (fst (obj_property (snd (construct rt st cls ia argv)) obj name s))"
  proof -
    have "construct rt st cls ia argv = (Inr obj, snd (construct rt st cls ia argv))"
      using assms(3) by (metis prod.collapse)
    from first_construction_lazy [OF assms(2) assms(1) this]
    obtain self1 where h: "heap (snd (construct rt st cls ia argv)) obj = Some self1"
      and n: "inst_arguments self1 = None" by blast
    have r1: "read_arguments self1 = Inl (AttributeError ''_ArgumentParser__arguments'')"
      using n by (simp add: read_arguments_def)
    have r2: "call_wrapper a self1 t = (Inl (AttributeError ''_ArgumentParser__arguments''), t)"
      for a :: "'s accessor" and t
      using n by (simp add: call_wrapper_def read_arguments_def)
    show ?thesis
      using h
      by (auto simp: obj_arguments_def obj_property_def r1 r2
               split: option.splits member.splits)
  qed
  from a b c d show ?thesis by auto
qed

theorem lazy_unparsed_reads_raise_witness:
  "ia_lazy_parsing lazy
   \<and> fst (construct plain_runtime (test_module :: unit pystate) ''AdditionalArgument'' lazy [])
       = Inr 0
   \<and> obj_arguments
        (snd (construct plain_runtime (test_module :: unit pystate) ''AdditionalArgument'' lazy []))
        0 = Inl (AttributeError ''_ArgumentParser__arguments'')
   \<and> isl (fst (obj_property
        (snd (construct plain_runtime (test_module :: unit pystate) ''AdditionalArgument'' lazy []))
        0 ''bar'' ()))"
proof -
  have l: "ia_lazy_parsing lazy" by (simp add: lazy_def)
  have f: "lookup_object (test_module :: unit pystate)
             (mro (test_module :: unit pystate) ''AdditionalArgument'') = None"
    by code_simp
  have c: "fst (construct plain_runtime (test_module :: unit pystate) ''AdditionalArgument'' lazy [])
       = Inr 0"
    by code_simp
  have "obj_arguments
        (snd (construct plain_runtime (test_module :: unit pystate) ''AdditionalArgument'' lazy []))
        0 = Inl (AttributeError ''_ArgumentParser__arguments'')
   \<and> isl (fst (obj_property
        (snd (construct plain_runtime (test_module :: unit pystate) ''AdditionalArgument'' lazy []))
        0 ''bar'' ()))"
    using lazy_unparsed_reads_raise [OF l f c, where name = "''bar''" and s = "()"]
    by blast
  with l c show ?thesis by blast
qed

text \<open>
  C7 (as stated, refuted). A property read does not always call the transform: the
  wrapper of a constant flag returns \<open>None\<close> without calling the getter when the
  flag was not given, and calls it with no value when it was. With a getter that
  counts its calls, the count is still 0 after the property was read on a parse of
  the empty string, and 1 after it was read on a parse of \<open>--verbose\<close>.
\<close>

theorem const_property_read_without_call_counterexample:
  "fst (construct plain_runtime counting_module ''Counting'' lazy []) = Inr 0
   \<and> fst (obj_parse_args plain_runtime
            (snd (construct plain_runtime counting_module ''Counting'' lazy [])) 0 []) = None
   \<and> obj_property (parsed_object plain_runtime counting_module ''Counting'' []) 0 ''verbose'' 0
       = (Inr VNone, 0)
   \<and> obj_property (parsed_object plain_runtime counting_module ''Counting'' ''--verbose'')
         0 ''verbose'' 0
       = (Inr (VInt 40), 1)"
  unfolding parsed_object_def by code_simp

text \<open>
  C7 (amended). When \<open>parse_args(p2)\<close> is accepted, the instance after
  \<open>parse_args(p1)\<close> and \<open>parse_args(p2)\<close> is the one \<open>parse_args(p2)\<close> alone
  gives, whatever \<open>p1\<close> was and whether it was accepted: its namespace is the one
  the engine returned for \<open>p2\<close>. Every property read is its wrapper run on that
  namespace and on the state the program is in: \<open>_wrapper\<close> calls the getter with
  the value stored there, \<open>const_wrapper\<close> calls it with no value unless that value
  is \<open>None\<close>, in which case it is not called.
\<close>

theorem second_parse_replaces_namespace:
  assumes "fst (parse_args rt self p2) = None"
  shows "parse_args rt (snd (parse_args rt self p1)) p2 = parse_args rt self p2
     \<and> (\<exists>P ns. inst_parser self = Some P
            \<and> parser_parse_args rt P (py_split p2) = Inr ns
            \<and> snd (parse_args rt self p2) = self\<lparr>inst_arguments := Some ns\<rparr>
            \<and> read_arguments (snd (parse_args rt self p2)) = Inr ns
            \<and> call_wrapper acc (snd (parse_args rt self p2)) s =
                (case ns (w_argument_name acc) of
                   None \<Rightarrow> (Inl (AttributeError (w_argument_name acc)), s)
                 | Some v \<Rightarrow>
                     (case w_kind acc of
                        plain_wrapper \<Rightarrow> g_body (w_getter acc) ns (Some v) s
                      | const_wrapper \<Rightarrow>
                          if v = VNone then (Inr VNone, s)
                          else g_body (w_getter acc) ns None s)))"
proof -
  from assms obtain P ns where P: "inst_parser self = Some P"
    and ns: "parser_parse_args rt P (py_split p2) = Inr ns"
    by (auto simp: parse_args_def split: option.splits sum.splits)
  have p: "inst_parser (snd (parse_args rt self p1)) = Some P"
    using P by (simp add: parse_args_def split: sum.splits)
  have u: "(snd (parse_args rt self p1))\<lparr>inst_arguments := Some ns\<rparr>
             = self\<lparr>inst_arguments := Some ns\<rparr>"
    using P by (simp add: parse_args_def split: sum.splits)
  have a: "parse_args rt self p2 = (None, self\<lparr>inst_arguments := Some ns\<rparr>)"
    using P ns by (simp add: parse_args_def)
  have b: "parse_args rt (snd (parse_args rt self p1)) p2
             = (None, self\<lparr>inst_arguments := Some ns\<rparr>)"
    using p u ns by (simp add: parse_args_def)
  have c: "call_wrapper acc (self\<lparr>inst_arguments := Some ns\<rparr>) s =
                (case ns (w_argument_name acc) of
                   None \<Rightarrow> (Inl (AttributeError (w_argument_name acc)), s)
                 | Some v \<Rightarrow>
                     (case w_kind acc of
                        plain_wrapper \<Rightarrow> g_body (w_getter acc) ns (Some v) s
                      | const_wrapper \<Rightarrow>
                          if v = VNone then (Inr VNone, s)
                          else g_body (w_getter acc) ns None s))"
    by (simp add: read_arguments_def call_wrapper_def ns_getattr_def
             split: option.splits wrapper_kind.splits)
  show ?thesis
    using P ns c by (simp add: a b read_arguments_def)
qed

lemma test_instance_second_parse:
  "fst (parse_args plain_runtime (test_instance plain_runtime lazy [])
          ''--foo f --nargs 4 5 6 -b 7'') = None"
  by code_simp

lemma test_instance_second_bar:
  "map_option (\<lambda>acc. call_wrapper acc
          (snd (parse_args plain_runtime (test_instance plain_runtime lazy [])
                  ''--foo f --nargs 4 5 6 -b 7'')) ()) (test_accessor ''bar'')
   = Some (Inr (VInt 8), ())"
  by code_simp

theorem second_parse_replaces_namespace_witness:
  "fst (parse_args plain_runtime (test_instance plain_runtime lazy [])
          ''--foo f --nargs 4 5 6 -b 7'') = None
   \<and> map_option (\<lambda>acc. call_wrapper acc
          (snd (parse_args plain_runtime
                 (snd (parse_args plain_runtime (test_instance plain_runtime lazy [])
                         ''--foo foo --nargs 1 2 3 --bar 3 --baz foo/bar''))
                 ''--foo f --nargs 4 5 6 -b 7'')) ()) (test_accessor ''bar'')
      = Some (Inr (VInt 8), ())"
  using second_parse_replaces_namespace [OF test_instance_second_parse, THEN conjunct1,
          of "''--foo foo --nargs 1 2 3 --bar 3 --baz foo/bar''"]
        test_instance_second_parse test_instance_second_bar
  by simp

section \<open>Sequence numbers and the order of registration\<close>

lemma argument_number:
  "argument dec n g = Inr (acc, n') \<Longrightarrow> i_number (w_info acc) = n \<and> n' = n + 1"
  by (auto simp: argument_def split: decorator.splits dest: generate_number)

lemma body_accessors_numbers:
  "map (\<lambda>acc. i_number (w_info acc)) (body_accessors n decls)
     = [n ..< n + length (body_accessors n decls)]"
proof (induction decls arbitrary: n)
  case Nil
  show ?case by simp
next
  case (Cons d ds)
  obtain p dec g where d: "d = Decl p dec g" by (cases d)
  show ?case
  proof (cases "argument dec n g")
    case (Inl e)
    with d show ?thesis by simp
  next
    case (Inr r)
    obtain acc n' where r: "r = (acc, n')" by (cases r)
    from argument_number Inr r have k: "i_number (w_info acc) = n" "n' = n + 1" by blast+
    show ?thesis
      using d Inr r k Cons.IH [of "n + 1"] by (simp add: upt_rec)
  qed
qed

lemma class_body_counter:
  "class_body n decls d = (r, n', d') \<Longrightarrow>
     n' = n + length (body_accessors n decls)
     \<and> (r = None \<longrightarrow> length (body_accessors n decls) = length decls)"
proof (induction decls arbitrary: n d)
  case Nil
  then show ?case by simp
next
  case (Cons x xs)
  obtain p dec g where x: "x = Decl p dec g" by (cases x)
  show ?case
  proof (cases "argument dec n g")
    case (Inl e)
    with x Cons.prems show ?thesis by auto
  next
    case (Inr q)
    obtain acc m where q: "q = (acc, m)" by (cases q)
    from argument_number Inr q have m: "m = n + 1" by blast
    from Cons.prems x Inr q
    have "class_body m xs (dict_set (g_name g) (if p then ArgumentProperty acc else OtherMember) d)
            = (r, n', d')" by simp
    from Cons.IH [OF this] show ?thesis using x Inr q m by simp
  qed
qed

lemma add_argument_appends:
  "add_argument P args kw = Inr P' \<Longrightarrow>
     map a_option_strings (p_actions P') = map a_option_strings (p_actions P) @ [args]"
  by (auto simp: add_argument_def add_action_def make_action_def Let_def
           split: sum.splits option.splits action_name.splits if_splits)

lemma add_arguments_appends:
  "add_arguments P regs = Inr P' \<Longrightarrow>
     map a_option_strings (p_actions P') = map a_option_strings (p_actions P) @ map flags_of regs"
proof (induction regs arbitrary: P)
  case Nil
  then show ?case by simp
next
  case (Cons r rs)
  obtain number name args kw where r: "r = (number, name, args, kw)" by (cases r)
  from Cons.prems r obtain P1 where
    a: "add_argument P ((''--'' @ name) # args) kw = Inr P1" and
    b: "add_arguments P1 rs = Inr P'"
    by (auto split: sum.splits)
  from add_argument_appends [OF a] Cons.IH [OF b] r
  show ?case by (simp add: flags_of_def)
qed

text \<open>
  C8. The decorations of a class body get the consecutive numbers from the counter
  of the generator on, in the order of the text, and the counter goes on from
  there for the class bodies that follow, so the numbers increase strictly over
  all declarations. \<open>__init__\<close> registers the collected declarations, whatever the
  order in which \<open>dir\<close> lists them, in ascending order of their numbers (strictly
  ascending when the numbers are distinct), after the help flag of the engine.
\<close>

theorem sequence_numbers_and_registration_order:
  "map (\<lambda>acc. i_number (w_info acc)) (body_accessors n decls)
     = [n ..< n + length (body_accessors n decls)]
   \<and> fst (snd (class_body n decls d)) = n + length (body_accessors n decls)
   \<and> (if fst (class_body n decls d) = None
       then length (body_accessors n decls) = length decls else True)
   \<and> sorted (map fst (sorted_registrations accs))
   \<and> set (sorted_registrations accs) = set (map (\<lambda>acc. registration (w_info acc)) accs)
   \<and> length (sorted_registrations accs) = length accs
   \<and> (if distinct (map (\<lambda>acc. i_number (w_info acc)) accs)
       then sorted_wrt (<) (map fst (sorted_registrations accs)) else True)
   \<and> (if build_parser accs ia = Inr P
       then map a_option_strings (p_actions P)
              = [''-h'', ''--help''] # map flags_of (sorted_registrations accs)
       else True)"
proof -
  obtain r n' d' where cb: "class_body n decls d = (r, n', d')"
    by (cases "class_body n decls d") auto
  note c = class_body_counter [OF cb]
  have fstreg: "fst (registration i) = i_number i" for i
    by (simp add: registration_def split: option.splits)
  have nums: "map fst (map (\<lambda>acc. registration (w_info acc)) accs)
                = map (\<lambda>acc. i_number (w_info acc)) accs"
    by (simp add: fstreg)
  have s: "sorted (map fst (sorted_registrations accs))"
    by (simp add: sorted_registrations_def)
  have strict: "sorted_wrt (<) (map fst (sorted_registrations accs))"
    if dn: "distinct (map (\<lambda>acc. i_number (w_info acc)) accs)"
  proof -
    define xs where "xs = map (\<lambda>acc. registration (w_info acc)) accs"
    from dn have "distinct (map fst xs)" unfolding xs_def by (subst nums)
    then have "distinct xs \<and> inj_on fst (set xs)" by (simp add: distinct_map)
    then have "distinct (map fst (sort_key fst xs))" by (simp add: distinct_map)
    with s show ?thesis by (simp add: sorted_registrations_def strict_sorted_iff xs_def)
  qed
  have b: "map a_option_strings (p_actions P)
              = [''-h'', ''--help''] # map flags_of (sorted_registrations accs)"
    if "build_parser accs ia = Inr P"
    using add_arguments_appends [OF that [unfolded build_parser_def]]
    by (simp add: new_parser_def help_action_def)
  show ?thesis
    using body_accessors_numbers [of n decls] c cb s strict b
    by (simp add: sorted_registrations_def)
qed

theorem sequence_numbers_and_registration_order_witness:
  "map (\<lambda>acc. i_number (w_info acc)) (body_accessors 0 (Argument_body :: unit decl list))
     = [0, 1, 2, 3, 4, 5, 6, 7]
   \<and> fst (class_body 0 (Argument_body :: unit decl list) []) = None
   \<and> map_sum id (\<lambda>P. map a_option_strings (p_actions P))
        (build_parser (class_accessors (test_module :: unit pystate) ''AdditionalArgument'') lazy)
     = Inr [[''-h'', ''--help''], [''--foo''], [''--name''], [''--bar'', ''-b''],
            [''--baz'', ''-z'', ''--az''], [''--const''], [''--nargs''], [''--boolean''],
            [''--optional'']]"
proof -
  have a: "fst (class_body 0 (Argument_body :: unit decl list) []) = None"
    by code_simp
  have b: "map_sum id (\<lambda>P. map a_option_strings (p_actions P))
        (build_parser (class_accessors (test_module :: unit pystate) ''AdditionalArgument'') lazy)
     = Inr [[''-h'', ''--help''], [''--foo''], [''--name''], [''--bar'', ''-b''],
            [''--baz'', ''-z'', ''--az''], [''--const''], [''--nargs''], [''--boolean''],
            [''--optional'']]"
    by code_simp
  have l: "length (Argument_body :: unit decl list) = 8"
    by (simp add: Argument_body_def)
  note T = sequence_numbers_and_registration_order
            [of 0 "Argument_body :: unit decl list" "[]" "[] :: unit accessor list" lazy undefined]
  from T a have "length (body_accessors 0 (Argument_body :: unit decl list))
                   = length (Argument_body :: unit decl list)"
    by (auto split: if_splits)
  with l have len: "length (body_accessors 0 (Argument_body :: unit decl list)) = 8"
    by simp
  from T have "map (\<lambda>acc. i_number (w_info acc)) (body_accessors 0 (Argument_body :: unit decl list))
     = [0 ..< 0 + length (body_accessors 0 (Argument_body :: unit decl list))]"
    by blast
  with len have "map (\<lambda>acc. i_number (w_info acc)) (body_accessors 0 (Argument_body :: unit decl list))
     = [0, 1, 2, 3, 4, 5, 6, 7]"
    by (simp add: upt_rec)
  with a b show ?thesis by blast
qed

section \<open>Constant flags and list arguments\<close>

text \<open>
  C3. The claim holds for the constant flag of the test suite, but not for every
  accessor: \<open>__init__\<close> registers the flag \<open>--\<close> followed by the accessor name
  (underscores turned into dashes) and leaves the destination to the engine, which
  strips the leading dashes, while the wrapper reads the attribute of the accessor
  name. For an accessor \<open>_quiet\<close> the flag is \<open>---quiet\<close>, the destination is
  \<open>quiet\<close>, and reading the property raises \<open>AttributeError\<close>, whether the flag was
  given or not. (The path with an explicit \<open>name\<close> sets \<open>dest\<close> itself.)
\<close>

theorem underscore_const_accessor_unreadable:
  "fst (construct plain_runtime underscore_module ''Underscore'' lazy []) = Inr 0
   \<and> fst (obj_parse_args plain_runtime
            (snd (construct plain_runtime underscore_module ''Underscore'' lazy [])) 0 []) = None
   \<and> map_sum id (\<lambda>ns. (ns ''_quiet'', ns ''quiet''))
        (obj_arguments (parsed_object plain_runtime underscore_module ''Underscore'' []) 0)
       = Inr (None, Some VNone)
   \<and> obj_property (parsed_object plain_runtime underscore_module ''Underscore'' [])
         0 ''_quiet'' 0
       = (Inl (AttributeError ''_quiet''), 0)
   \<and> fst (obj_parse_args plain_runtime
            (snd (construct plain_runtime underscore_module ''Underscore'' lazy [])) 0
            ''---quiet'') = None
   \<and> obj_property (parsed_object plain_runtime underscore_module ''Underscore'' ''---quiet'')
         0 ''_quiet'' 0
       = (Inl (AttributeError ''_quiet''), 0)"
  unfolding parsed_object_def by code_simp

section \<open>The parsing loop\<close>

lemma combine_pstate0 [simp]: "combine st pstate0 = st" "combine pstate0 st = st"
  by (simp_all add: combine_def pstate0_def)

lemma combine_assoc: "combine (combine a b) c = combine a (combine b c)"
  by (simp add: combine_def Un_assoc)

lemma combine_fields [simp]:
  "ps_namespace (combine st eff) = ps_namespace st ++ ps_namespace eff"
  "ps_seen_actions (combine st eff) = ps_seen_actions st \<union> ps_seen_actions eff"
  "ps_extras (combine st eff) = ps_extras st @ ps_extras eff"
  by (simp_all add: combine_def)

lemma set_dest_add: "set_dest a v ns = ns ++ set_dest a v Map.empty"
  by (simp add: set_dest_def split: option.splits)

lemma take_action_effect:
  "take_action rt a args st = map_sum id (combine st) (take_action rt a args pstate0)"
proof -
  have "set_dest a v (ps_namespace st) = ps_namespace st ++ set_dest a v Map.empty" for v
    by (rule set_dest_add)
  then show ?thesis
    by (simp add: take_action_def combine_def pstate0_def Let_def
             split: sum.splits action_class.splits)
qed

lemma take_actions_effect:
  "take_actions rt ts st = map_sum id (combine st) (take_actions rt ts pstate0)"
proof (induction ts arbitrary: st)
  case Nil
  show ?case by simp
next
  case (Cons t ts)
  obtain a args os where t: "t = (a, args, os)" by (cases t)
  show ?case
  proof (cases "take_action rt a args pstate0")
    case (Inl e)
    then show ?thesis using t take_action_effect [of rt a args st] by simp
  next
    case (Inr e1)
    have 1: "take_action rt a args st = Inr (combine st e1)"
      using Inr take_action_effect [of rt a args st] by simp
    show ?thesis
      using t Inr 1 Cons.IH [of "combine st e1"] Cons.IH [of e1]
      by (cases "take_actions rt ts pstate0") (simp_all add: combine_assoc)
  qed
qed

lemma extras_as_combine:
  "st\<lparr>ps_extras := ps_extras st @ xs\<rparr> = combine st (pstate0\<lparr>ps_extras := xs\<rparr>)"
  by (simp add: combine_def pstate0_def)

lemma take_actions_counted:
  "(case take_actions rt ts st of Inl e \<Rightarrow> Inl e | Inr st' \<Rightarrow> Inr (n, st'))
     = map_sum id (\<lambda>(n, eff). (n, combine st eff))
         (case take_actions rt ts pstate0 of Inl e \<Rightarrow> Inl e | Inr st' \<Rightarrow> Inr (n, st'))"
  using take_actions_effect [of rt ts st]
  by (cases "take_actions rt ts pstate0") simp_all

lemma take_actions_extras_counted:
  "(case take_actions rt ts (st\<lparr>ps_extras := ps_extras st @ xs\<rparr>) of
      Inl e \<Rightarrow> Inl e | Inr st' \<Rightarrow> Inr (n, st'))
     = map_sum id (\<lambda>(n, eff). (n, combine st eff))
         (case take_actions rt ts (pstate0\<lparr>ps_extras := ps_extras pstate0 @ xs\<rparr>) of
            Inl e \<Rightarrow> Inl e | Inr st' \<Rightarrow> Inr (n, st'))"
proof -
  have 1: "take_actions rt ts (st\<lparr>ps_extras := ps_extras st @ xs\<rparr>)
      = map_sum id (combine (combine st (pstate0\<lparr>ps_extras := xs\<rparr>))) (take_actions rt ts pstate0)"
    using take_actions_effect [of rt ts "st\<lparr>ps_extras := ps_extras st @ xs\<rparr>"]
    by (simp add: extras_as_combine)
  have 2: "take_actions rt ts (pstate0\<lparr>ps_extras := ps_extras pstate0 @ xs\<rparr>)
      = map_sum id (combine (pstate0\<lparr>ps_extras := xs\<rparr>)) (take_actions rt ts pstate0)"
    using take_actions_effect [of rt ts "pstate0\<lparr>ps_extras := ps_extras pstate0 @ xs\<rparr>"]
    by (simp add: pstate0_def)
  show ?thesis
    unfolding 1 2
    by (cases "take_actions rt ts pstate0") (simp_all add: combine_assoc)
qed

lemma consume_optional_effect:
  "consume_optional rt P s t rest st =
     map_sum id (\<lambda>(n, eff). (n, combine st eff)) (consume_optional rt P s t rest pstate0)"
proof -
  obtain ao os sep ea where t: "t = (ao, os, sep, ea)" by (cases t)
  show ?thesis
  proof (cases ao)
    case None
    then show ?thesis
      using t by (simp add: consume_optional_def combine_def pstate0_def)
  next
    case a: (Some a)
    show ?thesis
    proof (cases ea)
      case None
      show ?thesis
      proof (cases "match_argument a (map snd rest)")
        case (Inl e)
        then show ?thesis using t a None by (simp add: consume_optional_def)
      next
        case (Inr n)
        have "consume_optional rt P s t rest st1
               = (case take_actions rt [(a, map fst (take n rest), os)] st1 of
                    Inl e \<Rightarrow> Inl e | Inr st' \<Rightarrow> Inr (n, st'))" for st1
          using t a None Inr by (simp add: consume_optional_def)
        then show ?thesis
          using take_actions_counted
                  [where rt = rt and ts = "[(a, map fst (take n rest), os)]" and n = n and st = st]
          by simp
      qed
    next
      case (Some e)
      show ?thesis
      proof (cases "explicit_loop P a os sep e []")
        case (Inl x)
        then show ?thesis using t a Some by (simp add: consume_optional_def)
      next
        case (Inr r)
        obtain ts extra fo where r: "r = (ts, extra, fo)" by (cases r)
        show ?thesis
        proof (cases fo)
          case None
          have "consume_optional rt P s t rest st1
               = (case take_actions rt ts (st1\<lparr>ps_extras := ps_extras st1 @ extra\<rparr>) of
                    Inl e \<Rightarrow> Inl e | Inr st' \<Rightarrow> Inr (0, st'))" for st1
            using t a Some Inr r None by (simp add: consume_optional_def)
          then show ?thesis
            using take_actions_extras_counted
                    [where rt = rt and ts = ts and st = st and xs = extra and n = 0]
            by simp
        next
          case f: (Some f)
          obtain a' os' where f': "f = (a', os')" by (cases f)
          show ?thesis
          proof (cases "match_argument a' (map snd rest)")
            case (Inl x)
            then show ?thesis
              using t a Some Inr r f f' by (simp add: consume_optional_def)
          next
            case n: (Inr n)
            have "consume_optional rt P s t rest st1
               = (case take_actions rt (ts @ [(a', map fst (take n rest), os')])
                         (st1\<lparr>ps_extras := ps_extras st1 @ extra\<rparr>) of
                    Inl e \<Rightarrow> Inl e | Inr st' \<Rightarrow> Inr (n, st'))" for st1
              using t a Some Inr r f f' n by (simp add: consume_optional_def)
            then show ?thesis
              using take_actions_extras_counted
                      [where rt = rt and ts = "ts @ [(a', map fst (take n rest), os')]"
                         and st = st and xs = extra and n = n]
              by simp
          qed
        qed
      qed
    qed
  qed
qed

lemma parse_loop_effect:
  "parse_loop rt P cs st = map_sum id (combine st) (parse_loop rt P cs pstate0)"
proof (induction "length cs" arbitrary: cs st rule: less_induct)
  case less
  show ?case
  proof (cases cs)
    case Nil
    then show ?thesis by simp
  next
    case (Cons c cs')
    obtain s p where c: "c = (s, p)" by (cases c)
    have step: "parse_loop rt P cs' st1 = map_sum id (combine st1) (parse_loop rt P cs' pstate0)"
      for st1
      using less [of cs' st1] Cons by simp
    have skip: "map_sum id (combine (st\<lparr>ps_extras := ps_extras st @ [s]\<rparr>)) r
                  = map_sum id (combine st)
                      (map_sum id (combine (pstate0\<lparr>ps_extras := ps_extras pstate0 @ [s]\<rparr>)) r)"
      for r :: "exn + pstate"
      by (cases r) (simp_all add: combine_def pstate0_def)
    show ?thesis
    proof (cases p)
      case PA
      have "parse_loop rt P cs st = parse_loop rt P cs' (st\<lparr>ps_extras := ps_extras st @ [s]\<rparr>)"
        using Cons c PA by simp
      also have "\<dots> = map_sum id (combine (st\<lparr>ps_extras := ps_extras st @ [s]\<rparr>))
                         (parse_loop rt P cs' pstate0)"
        by (rule step)
      also have "\<dots> = map_sum id (combine st)
                 (map_sum id (combine (pstate0\<lparr>ps_extras := ps_extras pstate0 @ [s]\<rparr>))
                    (parse_loop rt P cs' pstate0))"
        by (rule skip)
      also have "map_sum id (combine (pstate0\<lparr>ps_extras := ps_extras pstate0 @ [s]\<rparr>))
                    (parse_loop rt P cs' pstate0)
                 = parse_loop rt P cs' (pstate0\<lparr>ps_extras := ps_extras pstate0 @ [s]\<rparr>)"
        by (rule step [symmetric])
      also have "\<dots> = parse_loop rt P cs pstate0"
        using Cons c PA by simp
      finally show ?thesis .
    next
      case PDash
      have "parse_loop rt P cs st = parse_loop rt P cs' (st\<lparr>ps_extras := ps_extras st @ [s]\<rparr>)"
        using Cons c PDash by simp
      also have "\<dots> = map_sum id (combine (st\<lparr>ps_extras := ps_extras st @ [s]\<rparr>))
                         (parse_loop rt P cs' pstate0)"
        by (rule step)
      also have "\<dots> = map_sum id (combine st)
                 (map_sum id (combine (pstate0\<lparr>ps_extras := ps_extras pstate0 @ [s]\<rparr>))
                    (parse_loop rt P cs' pstate0))"
        by (rule skip)
      also have "map_sum id (combine (pstate0\<lparr>ps_extras := ps_extras pstate0 @ [s]\<rparr>))
                    (parse_loop rt P cs' pstate0)
                 = parse_loop rt P cs' (pstate0\<lparr>ps_extras := ps_extras pstate0 @ [s]\<rparr>)"
        by (rule step [symmetric])
      also have "\<dots> = parse_loop rt P cs pstate0"
        using Cons c PDash by simp
      finally show ?thesis .
    next
      case (PO t)
      show ?thesis
      proof (cases "consume_optional rt P s t cs' pstate0")
        case (Inl e)
        have "consume_optional rt P s t cs' st = Inl e"
          using Inl consume_optional_effect [of rt P s t cs' st] by simp
        then show ?thesis
          using Cons c PO Inl by simp
      next
        case (Inr r)
        obtain n e1 where r: "r = (n, e1)" by (cases r)
        have 1: "consume_optional rt P s t cs' st = Inr (n, combine st e1)"
          using Inr r consume_optional_effect [of rt P s t cs' st] by simp
        have d: "parse_loop rt P (drop n cs') st1
                   = map_sum id (combine st1) (parse_loop rt P (drop n cs') pstate0)" for st1
          using less [of "drop n cs'" st1] Cons by simp
        have assoc: "map_sum id (combine (combine st e1)) q
                       = map_sum id (combine st) (map_sum id (combine e1) q)"
          for q :: "exn + pstate"
          by (cases q) (simp_all add: combine_assoc)
        have "parse_loop rt P cs st = parse_loop rt P (drop n cs') (combine st e1)"
          using Cons c PO 1 by simp
        also have "\<dots> = map_sum id (combine (combine st e1)) (parse_loop rt P (drop n cs') pstate0)"
          by (rule d)
        also have "\<dots> = map_sum id (combine st)
                         (map_sum id (combine e1) (parse_loop rt P (drop n cs') pstate0))"
          by (rule assoc)
        also have "map_sum id (combine e1) (parse_loop rt P (drop n cs') pstate0)
                     = parse_loop rt P (drop n cs') e1"
          by (rule d [symmetric])
        also have "\<dots> = parse_loop rt P cs pstate0"
          using Cons c PO Inr r by simp
        finally show ?thesis .
      qed
    qed
  qed
qed

lemma written_take_action:
  "take_action rt a args st = Inr st' \<Longrightarrow> written_by_seen st \<Longrightarrow> written_by_seen st'"
  unfolding written_by_seen_def take_action_def set_dest_def Let_def
  by (auto split: sum.splits action_class.splits option.splits if_splits)

lemma written_take_actions:
  "take_actions rt ts st = Inr st' \<Longrightarrow> written_by_seen st \<Longrightarrow> written_by_seen st'"
proof (induction ts arbitrary: st)
  case Nil
  then show ?case by simp
next
  case (Cons t ts)
  obtain a args os where t: "t = (a, args, os)" by (cases t)
  from Cons.prems(1) t obtain st1 where 1: "take_action rt a args st = Inr st1"
    and 2: "take_actions rt ts st1 = Inr st'"
    by (auto split: sum.splits)
  from Cons.IH [OF 2 written_take_action [OF 1 Cons.prems(2)]] show ?case .
qed

lemma written_extras:
  "written_by_seen st \<Longrightarrow> written_by_seen (st\<lparr>ps_extras := xs\<rparr>)"
  by (simp add: written_by_seen_def)

lemma written_consume_optional:
  assumes "consume_optional rt P s t rest st = Inr (n, st')" and "written_by_seen st"
  shows "written_by_seen st'"
proof -
  obtain ao os sep ea where t: "t = (ao, os, sep, ea)" by (cases t)
  show ?thesis
  proof (cases ao)
    case None
    with assms t show ?thesis
      by (auto simp: consume_optional_def written_by_seen_def)
  next
    case a: (Some a)
    show ?thesis
    proof (cases ea)
      case None
      from assms(1) t a None obtain k where
        "take_actions rt [(a, map fst (take k rest), os)] st = Inr st'"
        by (auto simp: consume_optional_def split: sum.splits simp del: take_actions.simps)
      from written_take_actions [OF this assms(2)] show ?thesis .
    next
      case (Some e)
      from assms(1) t a Some obtain ts extra where
        "take_actions rt ts (st\<lparr>ps_extras := ps_extras st @ extra\<rparr>) = Inr st'"
        by (auto simp: consume_optional_def split: sum.splits prod.splits option.splits
                 simp del: take_actions.simps)
      from written_take_actions [OF this written_extras [OF assms(2)]] show ?thesis .
    qed
  qed
qed

lemma written_parse_loop:
  "parse_loop rt P cs st = Inr st' \<Longrightarrow> written_by_seen st \<Longrightarrow> written_by_seen st'"
proof (induction rt P cs st rule: parse_loop.induct)
  case (1 rt P st)
  then show ?case by simp
next
  case (2 rt P s tup cs st)
  from "2.prems"(1) obtain n st1 where c: "consume_optional rt P s tup cs st = Inr (n, st1)"
    and l: "parse_loop rt P (drop n cs) st1 = Inr st'"
    by (auto split: sum.splits)
  from "2.IH" [OF c refl l written_consume_optional [OF c "2.prems"(2)]] show ?case .
next
  case (3 rt P s cs st)
  from "3.IH" [OF _ written_extras [OF "3.prems"(2)]] "3.prems"(1) show ?case by simp
next
  case (4 rt P s cs st)
  from "4.IH" [OF _ written_extras [OF "4.prems"(2)]] "4.prems"(1) show ?case by simp
qed

lemma written_pstate0: "written_by_seen pstate0"
  by (simp add: written_by_seen_def pstate0_def)

lemma loop_effect_untouched:
  assumes "parse_loop rt P cs pstate0 = Inr eff"
      and "\<forall>b \<in> ps_seen_actions eff. a_dest b \<noteq> Some d"
  shows "ps_namespace eff d = None"
proof -
  from written_parse_loop [OF assms(1) written_pstate0]
  have "written_by_seen eff" .
  with assms(2) show ?thesis
    unfolding written_by_seen_def by (cases "ps_namespace eff d") auto
qed

lemma map_of_known: "map_of (p_option_string_actions P) k = Some b \<Longrightarrow> b \<in> known_actions P"
  unfolding known_actions_def by (metis map_of_SomeD image_eqI snd_conv)

lemma get_option_tuples_known:
  "tup \<in> set (get_option_tuples P s) \<Longrightarrow> \<exists>b os sep ea. tup = (Some b, os, sep, ea) \<and> b \<in> known_actions P"
  unfolding get_option_tuples_def known_actions_def Let_def
  by (auto split: if_splits prod.splits) force+

lemma parse_optional_known:
  assumes "parse_optional P s = Inr (Some (Some b, os, sep, ea))"
  shows "b \<in> known_actions P"
proof -
  have hd1: "length xs = 1 \<Longrightarrow> hd xs \<in> set xs" for xs :: "option_tuple list"
    by (cases xs) auto
  show ?thesis
    using assms get_option_tuples_known [of "hd (get_option_tuples P s)" P s]
          hd1 [of "get_option_tuples P s"]
    unfolding parse_optional_def Let_def
    by (auto split: if_splits option.splits prod.splits dest: map_of_known)
qed

lemma classify_known:
  "classify P toks = Inr cs \<Longrightarrow> list_all (known_pattern P) cs"
proof (induction toks arbitrary: cs)
  case Nil
  then show ?case by simp
next
  case (Cons t ts)
  show ?case
  proof (cases "t = ''--''")
    case True
    with Cons.prems show ?thesis
      by (auto simp: known_pattern_def list_all_iff)
  next
    case False
    with Cons.prems obtain tup cs' where p: "parse_optional P t = Inr tup"
      and c: "classify P ts = Inr cs'"
      and cs: "cs = (t, case tup of None \<Rightarrow> PA | Some x \<Rightarrow> PO x) # cs'"
      by (auto split: sum.splits)
    have "known_pattern P (t, case tup of None \<Rightarrow> PA | Some x \<Rightarrow> PO x)"
    proof (cases tup)
      case None
      then show ?thesis by (simp add: known_pattern_def)
    next
      case (Some x)
      obtain ao os sep ea where x: "x = (ao, os, sep, ea)" by (cases x)
      show ?thesis
        using Some x p parse_optional_known [of P t _ os sep ea]
        by (cases ao) (simp_all add: known_pattern_def)
    qed
    with Cons.IH [OF c] cs show ?thesis by simp
  qed
qed

lemma take_action_seen:
  "take_action rt a args st = Inr st' \<Longrightarrow> ps_seen_actions st' = insert a (ps_seen_actions st)"
  by (auto simp: take_action_def Let_def split: sum.splits action_class.splits)

lemma take_actions_seen:
  "take_actions rt ts st = Inr st' \<Longrightarrow> ps_seen_actions st' = ps_seen_actions st \<union> fst ` set ts"
proof (induction ts arbitrary: st)
  case Nil
  then show ?case by simp
next
  case (Cons t ts)
  obtain a args os where t: "t = (a, args, os)" by (cases t)
  from Cons.prems t obtain st1 where 1: "take_action rt a args st = Inr st1"
    and 2: "take_actions rt ts st1 = Inr st'"
    by (auto split: sum.splits)
  from Cons.IH [OF 2] take_action_seen [OF 1] t show ?case by auto
qed

lemma explicit_loop_known:
  "explicit_loop P a os sep ea acc = Inr (ts, extra, fo) \<Longrightarrow>
   a \<in> known_actions P \<Longrightarrow> fst ` set acc \<subseteq> known_actions P \<Longrightarrow>
     fst ` set ts \<subseteq> known_actions P \<and> (\<forall>b os'. fo = Some (b, os') \<longrightarrow> b \<in> known_actions P)"
proof (induction P a os sep ea acc rule: explicit_loop.induct)
  case (1 P a option_string sep explicit_arg action_tuples)
  note res = "1.prems"(1)
  from res obtain arg_count where m: "match_argument a [PA] = Inr arg_count"
    by (subst (asm) explicit_loop.simps) (auto split: sum.splits)
  from res m have l2: "\<not> length option_string < 2"
    by (subst (asm) explicit_loop.simps) (auto split: if_splits)
  let ?os' = "[hd option_string, hd explicit_arg]"
  let ?acc' = "action_tuples @ [(a, [], option_string)]"
  have acc': "fst ` set ?acc' \<subseteq> known_actions P"
    using "1.prems"(2,3) by auto
  show ?case
  proof (cases "arg_count = 0 \<and> option_string ! 1 \<noteq> CHR ''-'' \<and> explicit_arg \<noteq> []")
    case False
    have "explicit_loop P a option_string sep explicit_arg action_tuples
            = (if arg_count = 1
               then Inr (action_tuples @ [(a, [explicit_arg], option_string)], [], None)
               else Inl (ArgumentError ''ignored explicit argument''))"
      using m l2 False by (subst explicit_loop.simps) auto
    with res have "ts = action_tuples @ [(a, [explicit_arg], option_string)]" "fo = None"
      by (auto split: if_splits)
    with "1.prems"(2,3) show ?thesis by auto
  next
    case True
    from res m True l2
    have ns: "\<not> ((sep \<noteq> None \<and> sep \<noteq> Some []) \<or> hd explicit_arg = CHR ''-'')"
      by (subst (asm) explicit_loop.simps) (auto split: if_splits)
    show ?thesis
    proof (cases "map_of (p_option_string_actions P) ?os'")
      case None
      have "explicit_loop P a option_string sep explicit_arg action_tuples
              = Inr (?acc', [hd option_string # explicit_arg], None)"
        using m l2 True ns None by (subst explicit_loop.simps) (auto simp: Let_def)
      with res have "ts = ?acc'" "fo = None" by auto
      with acc' show ?thesis by simp
    next
      case (Some a')
      have ka': "a' \<in> known_actions P" using Some by (rule map_of_known)
      show ?thesis
      proof (cases "tl explicit_arg = []")
        case t: True
        have "explicit_loop P a option_string sep explicit_arg action_tuples
                = Inr (?acc', [], Some (a', ?os'))"
          using m l2 True ns Some t by (subst explicit_loop.simps) (auto simp: Let_def)
        with res have "ts = ?acc'" "fo = Some (a', ?os')" by auto
        with acc' ka' show ?thesis by simp
      next
        case t: False
        show ?thesis
        proof (cases "hd (tl explicit_arg) = CHR ''=''")
          case e: True
          have "explicit_loop P a option_string sep explicit_arg action_tuples
                  = explicit_loop P a' ?os' (Some ''='') (tl (tl explicit_arg)) ?acc'"
            using m l2 True ns Some t e by (subst explicit_loop.simps) (auto simp: Let_def)
          with res have r: "explicit_loop P a' ?os' (Some ''='') (tl (tl explicit_arg)) ?acc'
                     = Inr (ts, extra, fo)" by simp
          from "1.IH"(1) [OF m l2 True ns refl refl refl Some refl t e r ka' acc']
          show ?thesis .
        next
          case e: False
          have "explicit_loop P a option_string sep explicit_arg action_tuples
                  = explicit_loop P a' ?os' (Some []) (tl explicit_arg) ?acc'"
            using m l2 True ns Some t e by (subst explicit_loop.simps) (auto simp: Let_def)
          with res have r: "explicit_loop P a' ?os' (Some []) (tl explicit_arg) ?acc'
                     = Inr (ts, extra, fo)" by simp
          from "1.IH"(2) [OF m l2 True ns refl refl refl Some refl t e r ka' acc']
          show ?thesis .
        qed
      qed
    qed
  qed
qed

lemma consume_optional_known:
  assumes "consume_optional rt P s t rest st = Inr (n, st')"
      and "known_pattern P (s, PO t)"
  shows "ps_seen_actions st' \<subseteq> ps_seen_actions st \<union> known_actions P"
proof -
  obtain ao os sep ea where t: "t = (ao, os, sep, ea)" by (cases t)
  show ?thesis
  proof (cases ao)
    case None
    with assms t show ?thesis by (auto simp: consume_optional_def)
  next
    case a: (Some a)
    have ka: "a \<in> known_actions P" using assms(2) t a by (simp add: known_pattern_def)
    show ?thesis
    proof (cases ea)
      case None
      from assms(1) t a None obtain k where
        "take_actions rt [(a, map fst (take k rest), os)] st = Inr st'"
        by (auto simp: consume_optional_def split: sum.splits simp del: take_actions.simps)
      from take_actions_seen [OF this] ka show ?thesis by auto
    next
      case (Some e)
      from assms(1) t a Some obtain ts extra fo where
        x: "explicit_loop P a os sep e [] = Inr (ts, extra, fo)"
        by (auto simp: consume_optional_def split: sum.splits prod.splits)
      from explicit_loop_known [OF x ka]
      have kts: "fst ` set ts \<subseteq> known_actions P"
        and kfo: "\<And>b os'. fo = Some (b, os') \<Longrightarrow> b \<in> known_actions P" by auto
      show ?thesis
      proof (cases fo)
        case None
        from assms(1) t a Some x None have
          "take_actions rt ts (st\<lparr>ps_extras := ps_extras st @ extra\<rparr>) = Inr st'"
          by (auto simp: consume_optional_def split: sum.splits)
        from take_actions_seen [OF this] kts show ?thesis by auto
      next
        case f: (Some f)
        obtain a' os' where f': "f = (a', os')" by (cases f)
        from assms(1) t a Some x f f' obtain k where
          "take_actions rt (ts @ [(a', map fst (take k rest), os')])
             (st\<lparr>ps_extras := ps_extras st @ extra\<rparr>) = Inr st'"
          by (auto simp: consume_optional_def split: sum.splits)
        from take_actions_seen [OF this] kts kfo [of a' os'] f f' show ?thesis by auto
      qed
    qed
  qed
qed

lemma parse_loop_known:
  "parse_loop rt P cs st = Inr st' \<Longrightarrow> list_all (known_pattern P) cs \<Longrightarrow>
     ps_seen_actions st' \<subseteq> ps_seen_actions st \<union> known_actions P"
proof (induction rt P cs st rule: parse_loop.induct)
  case (1 rt P st)
  then show ?case by simp
next
  case (2 rt P s tup cs st)
  from "2.prems"(1) obtain n st1 where c: "consume_optional rt P s tup cs st = Inr (n, st1)"
    and l: "parse_loop rt P (drop n cs) st1 = Inr st'"
    by (auto split: sum.splits)
  have k: "known_pattern P (s, PO tup)" using "2.prems"(2) by simp
  have "list_all (known_pattern P) (drop n cs)"
    using "2.prems"(2) by (auto simp: list_all_iff dest: in_set_dropD)
  from "2.IH" [OF c refl l this] consume_optional_known [OF c k] show ?case by auto
next
  case (3 rt P s cs st)
  from "3.prems" have "parse_loop rt P cs (st\<lparr>ps_extras := ps_extras st @ [s]\<rparr>) = Inr st'"
    and "list_all (known_pattern P) cs" by simp_all
  from "3.IH" [OF this] show ?case by simp
next
  case (4 rt P s cs st)
  from "4.prems" have "parse_loop rt P cs (st\<lparr>ps_extras := ps_extras st @ [s]\<rparr>) = Inr st'"
    and "list_all (known_pattern P) cs" by simp_all
  from "4.IH" [OF this] show ?case by simp
qed

lemma actions_taken_known: "actions_taken rt P toks \<subseteq> known_actions P"
proof (cases "classify P toks")
  case (Inl e)
  then show ?thesis by (simp add: actions_taken_def)
next
  case (Inr cs)
  show ?thesis
  proof (cases "parse_loop rt P cs pstate0")
    case (Inl e)
    with Inr show ?thesis by (simp add: actions_taken_def)
  next
    case st: (Inr st)
    from parse_loop_known [OF st classify_known [OF Inr]] Inr st
    show ?thesis by (simp add: actions_taken_def pstate0_def)
  qed
qed

text \<open>What a flag consumes depends on the strings up to the next flag only.\<close>

lemma takeWhile_stop:
  "\<not> Q y \<Longrightarrow> takeWhile Q (xs @ y # ys) = takeWhile Q xs"
  by (induction xs) auto

lemma match_argument_bound:
  "match_argument a pats = Inr n \<Longrightarrow> n \<le> length (takeWhile is_PA pats)"
  by (auto simp: match_argument_def Let_def split: option.splits nargs.splits if_splits)

lemma match_argument_stop:
  "match_argument a (map snd (cs @ (s, PO t) # cs2)) = match_argument a (map snd cs)"
  by (simp add: match_argument_def takeWhile_stop is_PA_def)

lemma take_matched:
  assumes "match_argument a (map snd cs) = Inr n"
  shows "take n (cs @ xs) = take n cs" and "drop n (cs @ xs) = drop n cs @ xs"
proof -
  have "n \<le> length (takeWhile is_PA (map snd cs))"
    using assms by (rule match_argument_bound)
  also have "\<dots> \<le> length (map snd cs)" by (rule length_takeWhile_le)
  finally have "n \<le> length cs" by simp
  then show "take n (cs @ xs) = take n cs" and "drop n (cs @ xs) = drop n cs @ xs"
    by simp_all
qed

lemma consume_optional_stop:
  "consume_optional rt P s' t' (cs @ (s, PO t) # cs2) st = consume_optional rt P s' t' cs st"
proof -
  obtain ao os sep ea where t': "t' = (ao, os, sep, ea)" by (cases t')
  have m: "match_argument b (map snd (cs @ (s, PO t) # cs2)) = match_argument b (map snd cs)" for b
    by (rule match_argument_stop)
  have tk: "take n (cs @ (s, PO t) # cs2) = take n cs"
    if "match_argument b (map snd cs) = Inr n" for b n
    using that by (rule take_matched(1))
  show ?thesis
  proof (cases ao)
    case None
    then show ?thesis using t' by (simp add: consume_optional_def)
  next
    case a: (Some a)
    show ?thesis
    proof (cases ea)
      case None
      show ?thesis
      proof (cases "match_argument a (map snd cs)")
        case (Inl e)
        show ?thesis
          unfolding consume_optional_def t' a None
          by (simp only: prod.case option.case m Inl sum.case)
      next
        case (Inr n)
        show ?thesis
          unfolding consume_optional_def t' a None
          by (simp only: prod.case option.case m Inr sum.case tk [OF Inr])
      qed
    next
      case (Some e)
      show ?thesis
      proof (cases "explicit_loop P a os sep e []")
        case (Inl x)
        then show ?thesis using t' a Some by (simp add: consume_optional_def)
      next
        case (Inr r)
        obtain ts extra fo where r: "r = (ts, extra, fo)" by (cases r)
        show ?thesis
        proof (cases fo)
          case None
          then show ?thesis using t' a Some Inr r by (simp add: consume_optional_def)
        next
          case f: (Some f)
          obtain a' os' where f': "f = (a', os')" by (cases f)
          show ?thesis
          proof (cases "match_argument a' (map snd cs)")
            case Inl
            show ?thesis
              unfolding consume_optional_def t' a Some
              by (simp only: prod.case option.case m Inl Inr r f f' sum.case)
          next
            case n: (Inr n)
            show ?thesis
              unfolding consume_optional_def t' a Some
              by (simp only: prod.case option.case m n Inr r f f' sum.case tk [OF n])
          qed
        qed
      qed
    qed
  qed
qed

lemma consume_optional_count:
  assumes "consume_optional rt P s t cs st = Inr (n, st')"
  shows "n \<le> length cs"
proof -
  have b: "match_argument b (map snd cs) = Inr k \<Longrightarrow> k \<le> length cs" for b k
    using match_argument_bound [of b "map snd cs" k] length_takeWhile_le [of is_PA "map snd cs"]
    by simp
  obtain ao os sep ea where t: "t = (ao, os, sep, ea)" by (cases t)
  show ?thesis
    using assms b unfolding consume_optional_def t
    by (auto split: option.splits sum.splits prod.splits simp del: take_actions.simps)
qed

lemma parse_loop_at_flag:
  "parse_loop rt P (cs1 @ (s, PO t) # cs2) st =
     (case parse_loop rt P cs1 st of
        Inl e \<Rightarrow> Inl e
      | Inr st1 \<Rightarrow> parse_loop rt P ((s, PO t) # cs2) st1)"
proof (induction rt P cs1 st rule: parse_loop.induct)
  case (1 rt P st)
  show ?case by simp
next
  case (2 rt P s' tup cs st)
  show ?case
  proof (cases "consume_optional rt P s' tup cs st")
    case (Inl e)
    then show ?thesis by (simp add: consume_optional_stop)
  next
    case (Inr r)
    obtain n st1 where r: "r = (n, st1)" by (cases r)
    have "n \<le> length cs" using Inr r consume_optional_count by simp
    then have d: "drop n (cs @ (s, PO t) # cs2) = drop n cs @ (s, PO t) # cs2" by simp
    show ?thesis
      using Inr r d "2.IH" [OF Inr [unfolded r] refl]
      by (simp add: consume_optional_stop)
  qed
next
  case (3 rt P s' cs st)
  then show ?case by simp
next
  case (4 rt P s' cs st)
  then show ?case by simp
qed

section \<open>A flag with any number of arguments\<close>

text \<open>The first loop goes through the argument strings one by one until it meets
  \<open>--\<close>.\<close>

lemma classify_append:
  "''--'' \<notin> set xs \<Longrightarrow>
   classify P (xs @ ys) =
     (case classify P xs of
        Inl e \<Rightarrow> Inl e
      | Inr c1 \<Rightarrow> (case classify P ys of Inl e \<Rightarrow> Inl e | Inr c2 \<Rightarrow> Inr (c1 @ c2)))"
  by (induction xs) (auto split: sum.splits option.splits)

lemma classify_arguments:
  "list_all (is_argument P) vals \<Longrightarrow>
   classify P (vals @ post) =
     (case classify P post of
        Inl e \<Rightarrow> Inl e
      | Inr c \<Rightarrow> Inr (map (\<lambda>v. (v, PA)) vals @ c))"
  by (induction vals) (auto simp: is_argument_def split: sum.splits)

lemma parse_optional_exact:
  "map_of (p_option_string_actions P) flag = Some a \<Longrightarrow> flag \<noteq> [] \<Longrightarrow> hd flag = CHR ''-'' \<Longrightarrow>
   parse_optional P flag = Inr (Some (Some a, flag, None, None))"
  by (simp add: parse_optional_def)

lemma classify_flag:
  "flag \<noteq> ''--'' \<Longrightarrow> parse_optional P flag = Inr (Some t) \<Longrightarrow>
   classify P (flag # rest) =
     (case classify P rest of Inl e \<Rightarrow> Inl e | Inr c \<Rightarrow> Inr ((flag, PO t) # c))"
  by (simp split: sum.splits)

lemma classify_head:
  assumes "classify P post = Inr c" and "post = [] \<or> \<not> is_argument P (hd post)"
  shows "c = [] \<or> snd (hd c) \<noteq> PA"
proof (cases post)
  case Nil
  with assms(1) show ?thesis by simp
next
  case (Cons s ss)
  with assms show ?thesis
    by (auto simp: is_argument_def split: if_splits sum.splits option.splits)
qed

lemma match_star:
  assumes "a_nargs a = Some NStar" and "c = [] \<or> snd (hd c) \<noteq> PA"
  shows "match_argument a (map snd (map (\<lambda>v. (v, PA)) vals @ c)) = Inr (length vals)"
proof -
  have 1: "takeWhile is_PA (map snd c) = []"
    using assms(2) by (cases c) (auto simp: is_PA_def)
  have "takeWhile is_PA (map (\<lambda>v. PA) vals @ map snd c) = map (\<lambda>v. PA) vals @ takeWhile is_PA (map snd c)"
    by (rule takeWhile_append2) (auto simp: is_PA_def)
  then have "length (takeWhile is_PA (map snd (map (\<lambda>v. (v, PA)) vals @ c))) = length vals"
    using 1 by (simp add: comp_def)
  then show ?thesis using assms(1) by (simp add: match_argument_def Let_def)
qed

lemma get_value_list_coerced:
  "get_value_list rt a vals = Inr vs \<Longrightarrow> a_type a = Some T \<Longrightarrow>
   map (call_type rt T) vals = map Some vs"
  by (induction vals arbitrary: vs)
     (auto simp: get_value_def split: sum.splits option.splits)

lemma take_action_star:
  assumes "take_action rt a vals st = Inr st'"
      and "a_class a = StoreAction" and "a_nargs a = Some NStar"
      and "a_dest a = Some d" and "a_type a = Some T"
  shows "\<exists>vs. map (call_type rt T) vals = map Some vs \<and> ps_namespace st' d = Some (VList vs)"
proof -
  from assms(1,2,3) obtain vs where g: "get_value_list rt a vals = Inr vs"
    and s: "st' = st\<lparr>ps_seen_actions := insert a (ps_seen_actions st),
                     ps_namespace := set_dest a (VList vs) (ps_namespace st)\<rparr>"
    by (auto simp: take_action_def get_values_def Let_def split: sum.splits)
  from get_value_list_coerced [OF g assms(5)] s assms(4) show ?thesis
    by (auto simp: set_dest_def)
qed

lemma flag_step:
  assumes l: "parse_loop rt P ((flag, PO (Some a, os, sep, None)) # map (\<lambda>v. (v, PA)) vals @ c) st = Inr st'"
      and n: "a_nargs a = Some NStar" and c: "c = [] \<or> snd (hd c) \<noteq> PA"
  shows "\<exists>st1. take_action rt a vals st = Inr st1 \<and> parse_loop rt P c st1 = Inr st'"
proof -
  let ?rest = "map (\<lambda>v. (v, PA)) vals @ c"
  have m: "match_argument a (map snd ?rest) = Inr (length vals)"
    using n c by (rule match_star)
  have t: "map fst (take (length vals) ?rest) = vals" by (simp add: comp_def)
  have d: "drop (length vals) ?rest = c" by simp
  have co: "consume_optional rt P flag (Some a, os, sep, None) ?rest st =
          (case take_action rt a vals st of Inl e \<Rightarrow> Inl e | Inr st1 \<Rightarrow> Inr (length vals, st1))"
    unfolding consume_optional_def
    by (simp only: prod.case option.case m sum.case t take_actions.simps)
       (simp split: sum.splits)
  show ?thesis
  proof (cases "take_action rt a vals st")
    case (Inl e)
    with l co show ?thesis by simp
  next
    case (Inr st1)
    with l co d show ?thesis by simp
  qed
qed

text \<open>The conversion of the defaults leaves a destination that holds no string.\<close>

lemma convert_defaults_keeps:
  "convert_defaults rt as seen ns = Inr ns' \<Longrightarrow> \<forall>s. ns d \<noteq> Some (VStr s) \<Longrightarrow> ns' d = ns d"
proof (induction as arbitrary: ns)
  case Nil
  then show ?case by simp
next
  case (Cons b as)
  show ?case
  proof (cases "b \<in> seen \<or> a_required b")
    case True
    with Cons.prems(1) have "convert_defaults rt as seen ns = Inr ns'" by simp
    from Cons.IH [OF this Cons.prems(2)] show ?thesis .
  next
    case False
    consider (conv) s d' v where "a_default b = Value (VStr s)" "a_dest b = Some d'"
        "ns d' = Some (VStr s)" "get_value rt b s = Inr v"
        "convert_defaults rt as seen (ns(d' \<mapsto> v)) = Inr ns'"
      | (skip) "convert_defaults rt as seen ns = Inr ns'"
      using Cons.prems(1) False
      by (auto split: dflt.splits pyval.splits option.splits if_splits sum.splits)
    then show ?thesis
    proof cases
      case conv
      with Cons.prems(2) have "d' \<noteq> d" by auto
      then have "(ns(d' \<mapsto> v)) d = ns d" by simp
      with Cons.IH [OF conv(5)] Cons.prems(2) show ?thesis by simp
    next
      case skip
      from Cons.IH [OF skip Cons.prems(2)] show ?thesis .
    qed
  qed
qed

text \<open>
  The flag of an action that stores any number of arguments, followed by arguments
  up to the end or to the next flag: unless a later flag writes the same
  destination, the namespace holds the list of the converted arguments.
\<close>

lemma parse_flag_present:
  assumes ok: "parser_parse_args rt P (pre @ flag # vals @ post) = Inr ns"
      and pre: "''--'' \<notin> set pre"
      and flag: "map_of (p_option_string_actions P) flag = Some a"
                "flag \<noteq> []" "hd flag = CHR ''-''" "flag \<noteq> ''--''"
      and a: "a_class a = StoreAction" "a_nargs a = Some NStar"
             "a_dest a = Some d" "a_type a = Some T"
      and vals: "list_all (is_argument P) vals"
      and post: "post = [] \<or> \<not> is_argument P (hd post)"
      and last: "\<forall>b \<in> actions_taken rt P post. a_dest b \<noteq> Some d"
  shows "\<exists>vs. map (call_type rt T) vals = map Some vs \<and> ns d = Some (VList vs)"
proof -
  let ?st0 = "\<lparr>ps_namespace = initial_namespace (p_actions P) Map.empty,
               ps_seen_actions = {}, ps_extras = []\<rparr>"
  from ok obtain cs st where cl: "classify P (pre @ flag # vals @ post) = Inr cs"
    and lo: "parse_loop rt P cs ?st0 = Inr st"
    and cd: "convert_defaults rt (p_actions P) (ps_seen_actions st) (ps_namespace st) = Inr ns"
    unfolding parser_parse_args_def parse_known_args_def parse_known_args_inner_def
    by (auto split: sum.splits if_splits exn.splits)
  have po: "parse_optional P flag = Inr (Some (Some a, flag, None, None))"
    using flag(1,2,3) by (rule parse_optional_exact)
  from cl obtain c1 c2 where c1: "classify P pre = Inr c1"
    and c2: "classify P post = Inr c2"
    and cs: "cs = c1 @ (flag, PO (Some a, flag, None, None)) # map (\<lambda>v. (v, PA)) vals @ c2"
    by (auto simp: classify_append [OF pre] classify_flag [OF flag(4) po]
          classify_arguments [OF vals] simp del: classify.simps split: sum.splits)
  have h: "c2 = [] \<or> snd (hd c2) \<noteq> PA" using c2 post by (rule classify_head)
  from lo obtain st1 where
    l2: "parse_loop rt P ((flag, PO (Some a, flag, None, None)) # map (\<lambda>v. (v, PA)) vals @ c2) st1 = Inr st"
    unfolding cs parse_loop_at_flag by (auto split: sum.splits)
  from flag_step [OF l2 a(2) h] obtain st2 where ta: "take_action rt a vals st1 = Inr st2"
    and l3: "parse_loop rt P c2 st2 = Inr st" by auto
  from take_action_star [OF ta a(1,2,3,4)] obtain vs
    where vs: "map (call_type rt T) vals = map Some vs"
      and n2: "ps_namespace st2 d = Some (VList vs)" by auto
  from l3 obtain eff where e: "parse_loop rt P c2 pstate0 = Inr eff" and st: "st = combine st2 eff"
    by (subst (asm) parse_loop_effect) (auto simp: map_sum_def split: sum.splits)
  have "ps_seen_actions eff = actions_taken rt P post"
    using c2 e by (simp add: actions_taken_def)
  with last have "\<forall>b \<in> ps_seen_actions eff. a_dest b \<noteq> Some d" by simp
  with e have "ps_namespace eff d = None" by (rule loop_effect_untouched)
  with n2 st have "ps_namespace st d = Some (VList vs)" by (simp add: map_add_def)
  moreover from this have "\<forall>s. ps_namespace st d \<noteq> Some (VStr s)" by simp
  with cd have "ns d = ps_namespace st d" by (rule convert_defaults_keeps)
  ultimately have "ns d = Some (VList vs)" by simp
  with vs show ?thesis by auto
qed

section \<open>A flag that is not given\<close>

lemma initial_namespace_keeps:
  "ns d = Some v \<Longrightarrow> initial_namespace as ns d = Some v"
  by (induction as arbitrary: ns) (auto split: option.splits dflt.splits)

lemma initial_namespace_default:
  assumes "a \<in> set as" and "\<forall>b \<in> set as. a_dest b = Some d \<longrightarrow> b = a"
      and "a_dest a = Some d" and "a_default a = Value v" and "ns d = None"
  shows "initial_namespace as ns d = Some v"
  using assms
proof (induction as arbitrary: ns)
  case Nil
  then show ?case by simp
next
  case (Cons b as)
  show ?case
  proof (cases "b = a")
    case True
    with Cons.prems(3,4,5) show ?thesis by (simp add: initial_namespace_keeps)
  next
    case False
    with Cons.prems(1,2) have m: "a \<in> set as" and u: "\<forall>b \<in> set as. a_dest b = Some d \<longrightarrow> b = a"
      and nd: "a_dest b \<noteq> Some d" by auto
    let ?ns = "case (a_dest b, a_default b) of
                 (Some d', Value v') \<Rightarrow> (if ns d' = None then ns(d' \<mapsto> v') else ns)
               | _ \<Rightarrow> ns"
    have "?ns d = None"
      using nd Cons.prems(5) by (auto split: option.splits dflt.splits)
    then have "initial_namespace as ?ns d = Some v"
      using Cons.IH [of ?ns] m u Cons.prems(3,4) by blast
    then show ?thesis by simp
  qed
qed

lemma loop_from_initial:
  assumes "parse_loop rt P cs st0 = Inr st" and "classify P toks = Inr cs"
  shows "ps_seen_actions st = ps_seen_actions st0 \<union> actions_taken rt P toks"
    and "(\<forall>b \<in> actions_taken rt P toks. a_dest b \<noteq> Some d) \<Longrightarrow>
         ps_namespace st d = ps_namespace st0 d"
proof -
  from assms(1) obtain eff where e: "parse_loop rt P cs pstate0 = Inr eff"
    and st: "st = combine st0 eff"
    by (subst (asm) parse_loop_effect) (auto simp: map_sum_def split: sum.splits)
  have t: "actions_taken rt P toks = ps_seen_actions eff"
    using assms(2) e by (simp add: actions_taken_def)
  show "ps_seen_actions st = ps_seen_actions st0 \<union> actions_taken rt P toks"
    using st t by simp
  assume "\<forall>b \<in> actions_taken rt P toks. a_dest b \<noteq> Some d"
  with t have "\<forall>b \<in> ps_seen_actions eff. a_dest b \<noteq> Some d" by simp
  with e have "ps_namespace eff d = None" by (rule loop_effect_untouched)
  with st show "ps_namespace st d = ps_namespace st0 d" by (simp add: map_add_def)
qed

text \<open>A required action that the strings do not name: the engine rejects them.\<close>

lemma parse_absent_required:
  assumes "a \<in> set (p_actions P)" and "a_required a" and "a \<notin> actions_taken rt P toks"
  shows "\<exists>e. parser_parse_args rt P toks = Inl e"
proof (cases "parse_known_args_inner rt P toks")
  case (Inl e)
  then show ?thesis
    by (cases e) (simp_all add: parser_parse_args_def parse_known_args_def)
next
  case (Inr r)
  let ?st0 = "\<lparr>ps_namespace = initial_namespace (p_actions P) Map.empty,
               ps_seen_actions = {}, ps_extras = []\<rparr>"
  from Inr obtain cs st where cl: "classify P toks = Inr cs"
    and lo: "parse_loop rt P cs ?st0 = Inr st"
    and rq: "required_actions P (ps_seen_actions st) = []"
    unfolding parse_known_args_inner_def
    by (auto split: sum.splits if_splits)
  from loop_from_initial(1) [OF lo cl] have "ps_seen_actions st = actions_taken rt P toks"
    by simp
  with assms have "a \<in> set (required_actions P (ps_seen_actions st))"
    by (simp add: required_actions_def)
  with rq show ?thesis by simp
qed

text \<open>An action with a default that the strings do not name, the only action of
  its destination: the namespace holds the default (here one that is no string,
  so that the engine does not convert it).\<close>

lemma parse_absent_default:
  assumes ok: "parser_parse_args rt P toks = Inr ns"
      and a: "a \<in> set (p_actions P)" "a_dest a = Some d" "a_default a = Value v"
      and only: "\<forall>b \<in> set (p_actions P). a_dest b = Some d \<longrightarrow> b = a"
      and absent: "\<forall>b \<in> actions_taken rt P toks. a_dest b \<noteq> Some d"
      and v: "\<forall>s. v \<noteq> VStr s"
  shows "ns d = Some v"
proof -
  let ?st0 = "\<lparr>ps_namespace = initial_namespace (p_actions P) Map.empty,
               ps_seen_actions = {}, ps_extras = []\<rparr>"
  from ok obtain cs st where cl: "classify P toks = Inr cs"
    and lo: "parse_loop rt P cs ?st0 = Inr st"
    and cd: "convert_defaults rt (p_actions P) (ps_seen_actions st) (ps_namespace st) = Inr ns"
    unfolding parser_parse_args_def parse_known_args_def parse_known_args_inner_def
    by (auto split: sum.splits if_splits exn.splits)
  have "initial_namespace (p_actions P) Map.empty d = Some v"
    using a(1) only a(2,3) by (rule initial_namespace_default) simp
  with loop_from_initial(2) [OF lo cl absent] have n: "ps_namespace st d = Some v" by simp
  with v have "\<forall>s. ps_namespace st d \<noteq> Some (VStr s)" by simp
  with cd have "ns d = ps_namespace st d" by (rule convert_defaults_keeps)
  with n show ?thesis by simp
qed

section \<open>The parser that the initializer builds\<close>

lemma map_of_dict_set: "map_of (dict_set k v d) = (map_of d)(k \<mapsto> v)"
  by (induction d) auto

lemma map_of_fold_dict_set:
  "map_of (fold (\<lambda>s d. dict_set s a d) ss d) k = (if k \<in> set ss then Some a else map_of d k)"
  by (induction ss arbitrary: d) (auto simp: map_of_dict_set)

lemma add_action_new:
  assumes "add_action P a = Inr P'"
  shows "s \<in> set (a_option_strings a) \<Longrightarrow> map_of (p_option_string_actions P') s = Some a"
    and "a \<in> set (p_actions P')"
  using assms by (auto simp: add_action_def map_of_fold_dict_set split: if_splits)

lemma add_action_old:
  assumes "add_action P b = Inr P'"
  shows "map_of (p_option_string_actions P) s = Some a \<Longrightarrow>
         map_of (p_option_string_actions P') s = Some a"
    and "a \<in> set (p_actions P) \<Longrightarrow> a \<in> set (p_actions P')"
  using assms
  by (auto simp: add_action_def map_of_fold_dict_set list_ex_iff split: if_splits)

lemma make_action_strings: "make_action args d kw = Inr a \<Longrightarrow> a_option_strings a = args"
  by (auto simp: make_action_def Let_def split: option.splits action_name.splits if_splits)

lemma add_argument_new:
  assumes "add_argument P args kw = Inr P'"
  shows "\<exists>d a. get_optional_kwargs args kw = Inr d \<and> make_action args d kw = Inr a \<and>
               (\<forall>s \<in> set args. map_of (p_option_string_actions P') s = Some a) \<and>
               a \<in> set (p_actions P')"
proof -
  from assms obtain d a where d: "get_optional_kwargs args kw = Inr d"
    and m: "make_action args d kw = Inr a" and ad: "add_action P a = Inr P'"
    by (auto simp: add_argument_def split: sum.splits)
  from make_action_strings [OF m] add_action_new [OF ad] d m show ?thesis by auto
qed

lemma add_argument_old:
  assumes "add_argument P args kw = Inr P'"
  shows "map_of (p_option_string_actions P) s = Some a \<Longrightarrow>
         map_of (p_option_string_actions P') s = Some a"
    and "a \<in> set (p_actions P) \<Longrightarrow> a \<in> set (p_actions P')"
proof -
  from assms obtain b where ad: "add_action P b = Inr P'"
    by (auto simp: add_argument_def split: sum.splits)
  show "map_of (p_option_string_actions P) s = Some a \<Longrightarrow>
        map_of (p_option_string_actions P') s = Some a"
    by (rule add_action_old(1) [OF ad])
  show "a \<in> set (p_actions P) \<Longrightarrow> a \<in> set (p_actions P')"
    by (rule add_action_old(2) [OF ad])
qed

lemma add_arguments_old:
  "add_arguments P rs = Inr P' \<Longrightarrow>
   (map_of (p_option_string_actions P) s = Some a \<longrightarrow>
    map_of (p_option_string_actions P') s = Some a) \<and>
   (a \<in> set (p_actions P) \<longrightarrow> a \<in> set (p_actions P'))"
proof (induction rs arbitrary: P)
  case Nil
  then show ?case by simp
next
  case (Cons r rs)
  obtain n nm args kw where r: "r = (n, nm, args, kw)" by (cases r)
  from Cons.prems r obtain P1 where 1: "add_argument P ((''--'' @ nm) # args) kw = Inr P1"
    and 2: "add_arguments P1 rs = Inr P'"
    by (auto split: sum.splits)
  from Cons.IH [OF 2] add_argument_old [OF 1] show ?case by blast
qed

lemma add_arguments_registers:
  assumes "add_arguments P rs = Inr P'" and "(n, nm, args, kw) \<in> set rs"
  shows "\<exists>d a. get_optional_kwargs ((''--'' @ nm) # args) kw = Inr d \<and>
               make_action ((''--'' @ nm) # args) d kw = Inr a \<and>
               (\<forall>s \<in> set ((''--'' @ nm) # args). map_of (p_option_string_actions P') s = Some a) \<and>
               a \<in> set (p_actions P')"
  using assms
proof (induction rs arbitrary: P)
  case Nil
  then show ?case by simp
next
  case (Cons r rs)
  obtain n1 nm1 args1 kw1 where r: "r = (n1, nm1, args1, kw1)" by (cases r)
  from Cons.prems(1) r obtain P1
    where 1: "add_argument P ((''--'' @ nm1) # args1) kw1 = Inr P1"
      and 2: "add_arguments P1 rs = Inr P'"
    by (auto split: sum.splits)
  show ?case
  proof (cases "(n, nm, args, kw) \<in> set rs")
    case True
    from Cons.IH [OF 2 True] show ?thesis .
  next
    case False
    with Cons.prems(2) r have e: "nm1 = nm" "args1 = args" "kw1 = kw" by auto
    from add_argument_new [OF 1] e obtain d a
      where d: "get_optional_kwargs ((''--'' @ nm) # args) kw = Inr d"
        and m: "make_action ((''--'' @ nm) # args) d kw = Inr a"
        and s: "\<forall>s \<in> set ((''--'' @ nm) # args). map_of (p_option_string_actions P1) s = Some a"
        and p: "a \<in> set (p_actions P1)"
      by auto
    have "map_of (p_option_string_actions P') s = Some a"
      if "s \<in> set ((''--'' @ nm) # args)" for s
      using add_arguments_old [OF 2, of s a] s that by blast
    moreover have "a \<in> set (p_actions P')"
      using add_arguments_old [OF 2, of "[]" a] p by blast
    ultimately show ?thesis using d m by blast
  qed
qed

lemma build_parser_registers:
  assumes "build_parser accs ia = Inr P" and "w \<in> set accs"
      and "registration (w_info w) = (n, nm, args, kw)"
  shows "\<exists>d a. get_optional_kwargs ((''--'' @ nm) # args) kw = Inr d \<and>
               make_action ((''--'' @ nm) # args) d kw = Inr a \<and>
               (\<forall>s \<in> set ((''--'' @ nm) # args). map_of (p_option_string_actions P) s = Some a) \<and>
               a \<in> set (p_actions P)"
proof -
  have "(n, nm, args, kw) \<in> set (sorted_registrations accs)"
    using assms(2,3) by (force simp: sorted_registrations_def)
  with assms(1) show ?thesis
    unfolding build_parser_def by (rule add_arguments_registers)
qed

end
